theory Spec2Isabelle
  imports
    Main
    "HOL-Library.Char_ord"
    "HOL-Library.List_Lexorder"
begin

chapter \<open>The embedding\<close>

section \<open>Strings\<close>

text \<open>
  JavaScript strings are modelled as HOL strings (lists of 8-bit characters, read as the
  UTF-8 bytes of the text).  All keys, pointers and names that the normaliser produces
  itself are ASCII.
\<close>

text \<open>
  \<^verbatim>\<open>s.replace(/pat/g, rep)\<close> for a literal, non-empty pattern: the matches are found
  from left to right and do not overlap.
\<close>

function replaceAll :: "string \<Rightarrow> string \<Rightarrow> string \<Rightarrow> string" where
  "replaceAll pat rep [] = []"
| "replaceAll pat rep (c # cs) =
     (if pat \<noteq> [] \<and> take (length pat) (c # cs) = pat
      then rep @ replaceAll pat rep (drop (length pat) (c # cs))
      else c # replaceAll pat rep cs)"
  by pat_completeness auto
termination
  by (relation "measure (\<lambda>(pat, rep, s). length s)") auto

definition startsWith :: "string \<Rightarrow> string \<Rightarrow> bool" where
  "startsWith s pre = (take (length pre) s = pre)"

definition endsWith :: "string \<Rightarrow> string \<Rightarrow> bool" where
  "endsWith s suf = (length suf \<le> length s \<and> drop (length s - length suf) s = suf)"

text \<open>\<^verbatim>\<open>s.split(sep)\<close> for a single-character separator; the result is never empty.\<close>

fun splitOn :: "char \<Rightarrow> string \<Rightarrow> string list" where
  "splitOn sep [] = [[]]"
| "splitOn sep (c # cs) =
     (case splitOn sep cs of
        [] \<Rightarrow> (if c = sep then [[], []] else [[c]])
      | w # ws \<Rightarrow> (if c = sep then [] # w # ws else (c # w) # ws))"

subsection \<open>JSON-pointer tokens (helpers/pointers.ts)\<close>

definition encodeJsonPointerToken :: "string \<Rightarrow> string" where
  "encodeJsonPointerToken token = replaceAll ''/'' ''~1'' (replaceAll ''~'' ''~0'' token)"

text \<open>
  \<^verbatim>\<open>decodeURIComponent\<close> is the ECMAScript built-in (abstract operation Decode with an
  empty set of reserved characters), on the UTF-8 reading of a string: an escape
  \<^verbatim>\<open>%XY\<close> below 0x80 is one character; a leading byte announces one to three
  continuation escapes, and the octets must be a well-formed UTF-8 sequence.  \<open>None\<close> is
  the URIError the built-in throws.
\<close>

definition hexval :: "char \<Rightarrow> nat option" where
  "hexval c =
     (let n = (of_char c :: nat) in
      if 48 \<le> n \<and> n \<le> 57 then Some (n - 48)
      else if 65 \<le> n \<and> n \<le> 70 then Some (n - 55)
      else if 97 \<le> n \<and> n \<le> 102 then Some (n - 87)
      else None)"

fun parseHexOctet :: "string \<Rightarrow> (nat \<times> string) option" where
  "parseHexOctet (a # b # rest) =
     (case (hexval a, hexval b) of
        (Some x, Some y) \<Rightarrow> Some (16 * x + y, rest)
      | _ \<Rightarrow> None)"
| "parseHexOctet _ = None"

fun continuationOctets :: "nat \<Rightarrow> string \<Rightarrow> (nat list \<times> string) option" where
  "continuationOctets 0 s = Some ([], s)"
| "continuationOctets (Suc k) s =
     (case s of
        [] \<Rightarrow> None
      | c # cs \<Rightarrow>
          if c \<noteq> CHR ''%'' then None
          else (case parseHexOctet cs of
                  None \<Rightarrow> None
                | Some (b, rest) \<Rightarrow>
                    (case continuationOctets k rest of
                       None \<Rightarrow> None
                     | Some (bs, rest') \<Rightarrow> Some (b # bs, rest'))))"

definition leadingOnes :: "nat \<Rightarrow> nat" where
  "leadingOnes b =
     (if b < 128 then 0 else if b < 192 then 1 else if b < 224 then 2
      else if b < 240 then 3 else if b < 248 then 4 else 5)"

fun validUtf8 :: "nat list \<Rightarrow> bool" where
  "validUtf8 [b0, b1] = (194 \<le> b0 \<and> b0 \<le> 223 \<and> 128 \<le> b1 \<and> b1 \<le> 191)"
| "validUtf8 [b0, b1, b2] =
     (128 \<le> b2 \<and> b2 \<le> 191 \<and>
      (if b0 = 224 then 160 \<le> b1 \<and> b1 \<le> 191
       else if b0 = 237 then 128 \<le> b1 \<and> b1 \<le> 159
       else 225 \<le> b0 \<and> b0 \<le> 239 \<and> 128 \<le> b1 \<and> b1 \<le> 191))"
| "validUtf8 [b0, b1, b2, b3] =
     (128 \<le> b2 \<and> b2 \<le> 191 \<and> 128 \<le> b3 \<and> b3 \<le> 191 \<and>
      (if b0 = 240 then 144 \<le> b1 \<and> b1 \<le> 191
       else if b0 = 244 then 128 \<le> b1 \<and> b1 \<le> 143
       else 241 \<le> b0 \<and> b0 \<le> 243 \<and> 128 \<le> b1 \<and> b1 \<le> 191))"
| "validUtf8 _ = False"

lemma parseHexOctet_length:
  "parseHexOctet s = Some (b, rest) \<Longrightarrow> length rest < length s"
  by (cases s rule: parseHexOctet.cases) (auto split: option.splits)

lemma continuationOctets_length:
  "continuationOctets k s = Some (bs, rest) \<Longrightarrow> length rest \<le> length s"
proof (induction k arbitrary: s bs rest)
  case 0
  then show ?case by simp
next
  case (Suc k)
  then show ?case
    by (cases s) (fastforce split: if_splits option.splits dest: parseHexOctet_length)+
qed

function decodeURIComponent :: "string \<Rightarrow> string option" where
  "decodeURIComponent [] = Some []"
| "decodeURIComponent (c # cs) =
     (if c \<noteq> CHR ''%'' then map_option ((#) c) (decodeURIComponent cs)
      else (case parseHexOctet cs of
              None \<Rightarrow> None
            | Some (b, rest) \<Rightarrow>
                (let n = leadingOnes b in
                 if n = 0 then map_option ((#) (char_of b)) (decodeURIComponent rest)
                 else if n = 1 \<or> n > 4 then None
                 else (case continuationOctets (n - 1) rest of
                         None \<Rightarrow> None
                       | Some (bs, rest') \<Rightarrow>
                           if validUtf8 (b # bs)
                           then map_option ((@) (map char_of (b # bs))) (decodeURIComponent rest')
                           else None))))"
  by pat_completeness auto
termination
  by (relation "measure length")
     (auto dest!: parseHexOctet_length continuationOctets_length)

definition decodeJsonPointerToken :: "string \<Rightarrow> string" where
  "decodeJsonPointerToken token =
     (case decodeURIComponent token of
        Some decoded \<Rightarrow> replaceAll ''~0'' ''~'' (replaceAll ''~1'' ''/'' decoded)
      | None \<Rightarrow> replaceAll ''~0'' ''~'' (replaceAll ''~1'' ''/'' token))"

subsection \<open>Characters\<close>

text \<open>ASCII letters: \<^verbatim>\<open>toLowerCase\<close>, \<^verbatim>\<open>toUpperCase\<close> and the character classes.\<close>

definition isUpper :: "char \<Rightarrow> bool" where
  "isUpper c = (65 \<le> (of_char c :: nat) \<and> (of_char c :: nat) \<le> 90)"

definition isLower :: "char \<Rightarrow> bool" where
  "isLower c = (97 \<le> (of_char c :: nat) \<and> (of_char c :: nat) \<le> 122)"

definition isDigit :: "char \<Rightarrow> bool" where
  "isDigit c = (48 \<le> (of_char c :: nat) \<and> (of_char c :: nat) \<le> 57)"

definition isAlnum :: "char \<Rightarrow> bool" where
  "isAlnum c = (isUpper c \<or> isLower c \<or> isDigit c)"

definition toLowerChar :: "char \<Rightarrow> char" where
  "toLowerChar c = (if isUpper c then char_of ((of_char c :: nat) + 32) else c)"

definition toUpperChar :: "char \<Rightarrow> char" where
  "toUpperChar c = (if isLower c then char_of ((of_char c :: nat) - 32) else c)"

definition toLowerCase :: "string \<Rightarrow> string" where
  "toLowerCase s = map toLowerChar s"

subsection \<open>Unique component names (helpers/naming.ts)\<close>

text \<open>\<^verbatim>\<open>String(index)\<close> for a non-negative integer: its decimal digits.\<close>

fun String_of_nat :: "nat \<Rightarrow> string" where
  "String_of_nat n =
     (if n < 10 then [char_of (48 + n)]
      else String_of_nat (n div 10) @ [char_of (48 + n mod 10)])"

declare String_of_nat.simps [simp del]

text \<open>
  A \<^verbatim>\<open>Set<string>\<close> is the list of its members in insertion order: \<^verbatim>\<open>has\<close> is
  membership and \<^verbatim>\<open>add\<close> appends a string that is not yet a member.
\<close>

definition set_has :: "string list \<Rightarrow> string \<Rightarrow> bool" where
  "set_has names x = (x \<in> set names)"

definition set_add :: "string list \<Rightarrow> string \<Rightarrow> string list" where
  "set_add names x = (if x \<in> set names then names else names @ [x])"

definition suffixed :: "string \<Rightarrow> nat \<Rightarrow> string" where
  "suffixed safeBaseName index = safeBaseName @ ''_'' @ String_of_nat index"

lemma String_of_nat_nonempty: "String_of_nat n \<noteq> []"
  by (subst String_of_nat.simps) simp

lemma String_of_nat_last: "last (String_of_nat n) = char_of (48 + n mod 10)"
  by (subst String_of_nat.simps) simp

lemma String_of_nat_butlast:
  "butlast (String_of_nat n) = (if n < 10 then [] else String_of_nat (n div 10))"
  by (subst String_of_nat.simps) simp

lemma digit_char_inj:
  assumes "char_of (48 + a) = (char_of (48 + b) :: char)" "a < 10" "b < 10"
  shows "a = (b :: nat)"
proof -
  have "of_char (char_of (48 + a) :: char) = (of_char (char_of (48 + b) :: char) :: nat)"
    using assms(1) by simp
  then show ?thesis using assms(2,3) by (simp add: of_char_of)
qed

lemma String_of_nat_inj: "String_of_nat n = String_of_nat m \<Longrightarrow> n = m"
proof (induction n arbitrary: m rule: String_of_nat.induct)
  case (1 n)
  have l: "n mod 10 = m mod 10"
    using arg_cong [OF "1.prems", of last] digit_char_inj [of "n mod 10" "m mod 10"]
    by (simp add: String_of_nat_last)
  have b: "(if n < 10 then [] else String_of_nat (n div 10))
           = (if m < 10 then [] else String_of_nat (m div 10))"
    using arg_cong [OF "1.prems", of butlast] by (simp add: String_of_nat_butlast)
  show ?case
  proof (cases "n < 10")
    case True
    then have "m < 10" using b String_of_nat_nonempty [of "m div 10"] by (auto split: if_splits)
    then show ?thesis using True l by simp
  next
    case False
    then have m: "\<not> m < 10" using b String_of_nat_nonempty [of "n div 10"] by (auto split: if_splits)
    then have "n div 10 = m div 10" using "1.IH" False b by simp
    then show ?thesis using l by (metis div_mult_mod_eq)
  qed
qed

lemma suffixed_inj: "suffixed b i = suffixed b j \<Longrightarrow> i = j"
  by (simp add: suffixed_def String_of_nat_inj)

lemma finite_suffixed_in: "finite {k. suffixed b k \<in> set names}"
proof -
  have "{k. suffixed b k \<in> set names} = (suffixed b) -` set names" by auto
  moreover have "inj (suffixed b)" by (rule injI) (rule suffixed_inj)
  ultimately show ?thesis by (simp add: finite_vimageI)
qed

text \<open>
  The loop of \<^verbatim>\<open>createUniqueSchemaName\<close>, on its two loop variables:
  \<^verbatim>\<open>while (names.has(uniqueName)) { uniqueName = `${safeBaseName}_${index}`; index += 1; }\<close>
\<close>

function uniqueNameLoop :: "string \<Rightarrow> string list \<Rightarrow> string \<Rightarrow> nat \<Rightarrow> string" where
  "uniqueNameLoop safeBaseName names uniqueName index =
     (if set_has names uniqueName
      then uniqueNameLoop safeBaseName names (suffixed safeBaseName index) (index + 1)
      else uniqueName)"
  by pat_completeness auto
termination
proof (relation "measure (\<lambda>(b, names, u, i).
          2 * card {k. i \<le> k \<and> suffixed b k \<in> set names} + (if u \<in> set names then 1 else 0))",
       goal_cases)
  case 1
  show ?case by simp
next
  case (2 b names u i)
  let ?A = "{k. i \<le> k \<and> suffixed b k \<in> set names}"
  let ?B = "{k. i + 1 \<le> k \<and> suffixed b k \<in> set names}"
  have fin: "finite ?A" by (rule finite_subset [OF _ finite_suffixed_in [of b names]]) auto
  have sub: "?B \<subseteq> ?A" by auto
  show ?case
  proof (cases "suffixed b i \<in> set names")
    case True
    then have "i \<in> ?A" "i \<notin> ?B" by auto
    then have "?B \<subset> ?A" using sub by blast
    then have "card ?B < card ?A" using fin by (rule psubset_card_mono [rotated])
    then show ?thesis using 2 True by (simp add: set_has_def)
  next
    case False
    have "card ?B \<le> card ?A" using fin sub by (rule card_mono)
    then show ?thesis using 2 False by (simp add: set_has_def)
  qed
qed

declare uniqueNameLoop.simps [simp del]

definition createUniqueSchemaName :: "string \<Rightarrow> string list \<Rightarrow> string \<times> string list" where
  "createUniqueSchemaName baseName names =
     (let safeBaseName = (if baseName = [] then ''Schema'' else baseName);
          uniqueName = uniqueNameLoop safeBaseName names safeBaseName 2
      in (uniqueName, set_add names uniqueName))"

section \<open>JavaScript values and the object heap\<close>

text \<open>
  A document is a graph of objects: two places can hold the same object, the passes compare
  objects by identity (\<^verbatim>\<open>WeakMap\<close>, \<^verbatim>\<open>WeakSet\<close>) and they change objects in place.  So
  a value is a primitive or a reference to an object of the heap, the heap is the list of
  all objects (a reference is an index into it), and a new object is appended.  A record
  is the list of its own properties in the order in which JavaScript lists them
  (\<^verbatim>\<open>Object.keys\<close>, \<^verbatim>\<open>Object.entries\<close>, \<^verbatim>\<open>JSON.stringify\<close>): the keys that are
  array indices first, in ascending order, then the other keys in the order in which they
  were added; the keys are distinct.  The code never computes with a number of a document,
  so a number is given by the text \<^verbatim>\<open>String(n)\<close> gives for it: \<^verbatim>\<open>1\<close>, \<^verbatim>\<open>-0.5\<close>,
  \<^verbatim>\<open>1e+21\<close>, \<^verbatim>\<open>NaN\<close>, \<^verbatim>\<open>Infinity\<close>, \<^verbatim>\<open>-Infinity\<close> (both zeros are \<^verbatim>\<open>0\<close>).
  The model has own properties only: a property that a record inherits from
  \<^verbatim>\<open>Object.prototype\<close> is not in it.
\<close>

datatype jsval =
    JUndefined
  | JNull
  | JBool bool
  | JNum string
  | JStr string
  | JRef nat

datatype jsobj =
    JRecord "(string \<times> jsval) list"
  | JArray "jsval list"

type_synonym heap = "jsobj list"

definition obj_at :: "heap \<Rightarrow> nat \<Rightarrow> jsobj option" where
  "obj_at h a = (if a < length h then Some (h ! a) else None)"

text \<open>\<^verbatim>\<open>isObject\<close> and \<^verbatim>\<open>isRecord\<close> of helpers/guards.ts.\<close>

definition isObject :: "heap \<Rightarrow> jsval \<Rightarrow> bool" where
  "isObject h v = (case v of JRef a \<Rightarrow> a < length h | _ \<Rightarrow> False)"

definition isRecord :: "heap \<Rightarrow> jsval \<Rightarrow> bool" where
  "isRecord h v =
     (case v of
        JRef a \<Rightarrow> (case obj_at h a of Some (JRecord es) \<Rightarrow> True | _ \<Rightarrow> False)
      | _ \<Rightarrow> False)"

definition isArray :: "heap \<Rightarrow> jsval \<Rightarrow> bool" where
  "isArray h v =
     (case v of
        JRef a \<Rightarrow> (case obj_at h a of Some (JArray xs) \<Rightarrow> True | _ \<Rightarrow> False)
      | _ \<Rightarrow> False)"

text \<open>The properties of a record, \<^verbatim>\<open>Object.entries(value)\<close>; empty for anything else.\<close>

definition entries :: "heap \<Rightarrow> jsval \<Rightarrow> (string \<times> jsval) list" where
  "entries h v =
     (case v of
        JRef a \<Rightarrow> (case obj_at h a of Some (JRecord es) \<Rightarrow> es | _ \<Rightarrow> [])
      | _ \<Rightarrow> [])"

text \<open>Reading a property, \<^verbatim>\<open>value[key]\<close>: \<^verbatim>\<open>undefined\<close> when the record has no such key.\<close>

definition lookup :: "(string \<times> jsval) list \<Rightarrow> string \<Rightarrow> jsval" where
  "lookup es k = (case map_of es k of Some v \<Rightarrow> v | None \<Rightarrow> JUndefined)"

definition getProp :: "heap \<Rightarrow> jsval \<Rightarrow> string \<Rightarrow> jsval" where
  "getProp h v k = lookup (entries h v) k"

text \<open>
  \<^verbatim>\<open>Map.set\<close> on a \<^verbatim>\<open>Map\<close> kept as the list of its entries in insertion order: an
  existing key keeps its place, a new key goes last.  \<^verbatim>\<open>Map.get\<close> is \<open>map_of\<close>.
\<close>

fun assign :: "('k \<times> 'v) list \<Rightarrow> 'k \<Rightarrow> 'v \<Rightarrow> ('k \<times> 'v) list" where
  "assign [] k v = [(k, v)]"
| "assign ((k', v') # es) k v = (if k' = k then (k, v) # es else (k', v') # assign es k v)"

text \<open>
  An array index is the canonical decimal text of an integer below \<^verbatim>\<open>2 ** 32 - 1\<close>.
\<close>

definition indexValue :: "string \<Rightarrow> nat" where
  "indexValue key = foldl (\<lambda>n c. 10 * n + (of_char c - 48)) 0 key"

definition isArrayIndex :: "string \<Rightarrow> bool" where
  "isArrayIndex key =
     (key \<noteq> [] \<and> list_all isDigit key \<and> (hd key \<noteq> CHR ''0'' \<or> key = ''0'')
      \<and> indexValue key < 4294967295)"

text \<open>
  Writing a property, \<^verbatim>\<open>record[key] = v\<close>.  A key the record has keeps its place.  A
  new key that is an array index goes after the smaller array indices, any other new key
  goes last.  The key \<^verbatim>\<open>__proto__\<close>, when the record does not have it as a property of
  its own, is the accessor of \<^verbatim>\<open>Object.prototype\<close>: the assignment adds no property.
  (JavaScript then makes an object that is assigned the prototype of the record, and
  throws a \<^verbatim>\<open>TypeError\<close> when that closes a cycle of prototypes.  The model has no
  prototypes: the statements below say nothing about reading \<^verbatim>\<open>record['__proto__']\<close>
  after such an assignment, and leave out the assignment that throws.)
\<close>

fun insertIndex :: "(string \<times> 'v) list \<Rightarrow> string \<Rightarrow> 'v \<Rightarrow> (string \<times> 'v) list" where
  "insertIndex [] k v = [(k, v)]"
| "insertIndex (e # es) k v =
     (if isArrayIndex (fst e) \<and> indexValue (fst e) < indexValue k then e # insertIndex es k v
      else (k, v) # e # es)"

definition putProp :: "(string \<times> 'v) list \<Rightarrow> string \<Rightarrow> 'v \<Rightarrow> (string \<times> 'v) list" where
  "putProp es k v =
     (if k \<in> fst ` set es then assign es k v
      else if k = ''__proto__'' then es
      else if isArrayIndex k then insertIndex es k v
      else es @ [(k, v)])"

definition setProp :: "heap \<Rightarrow> nat \<Rightarrow> string \<Rightarrow> jsval \<Rightarrow> heap" where
  "setProp h a k v =
     (case obj_at h a of
        Some (JRecord es) \<Rightarrow> h[a := JRecord (putProp es k v)]
      | _ \<Rightarrow> h)"

text \<open>Writing an array element that exists, \<^verbatim>\<open>array[index] = v\<close>.\<close>

definition setIndex :: "heap \<Rightarrow> nat \<Rightarrow> nat \<Rightarrow> jsval \<Rightarrow> heap" where
  "setIndex h a i v =
     (case obj_at h a of
        Some (JArray xs) \<Rightarrow> (if i < length xs then h[a := JArray (xs[i := v])] else h)
      | _ \<Rightarrow> h)"

text \<open>A new object: it gets the next free reference.\<close>

definition alloc :: "heap \<Rightarrow> jsobj \<Rightarrow> heap \<times> jsval" where
  "alloc h ob = (h @ [ob], JRef (length h))"

text \<open>
  Truthiness, for the tests \<^verbatim>\<open>if (x)\<close>, \<^verbatim>\<open>!x\<close> and \<^verbatim>\<open>a || b\<close>.
\<close>

definition truthy :: "jsval \<Rightarrow> bool" where
  "truthy v =
     (case v of
        JUndefined \<Rightarrow> False
      | JNull \<Rightarrow> False
      | JBool b \<Rightarrow> b
      | JNum n \<Rightarrow> n \<noteq> ''0'' \<and> n \<noteq> ''NaN''
      | JStr s \<Rightarrow> s \<noteq> []
      | JRef a \<Rightarrow> True)"

section \<open>The structural fingerprint (helpers/fingerprint.ts)\<close>

text \<open>
  The value \<^verbatim>\<open>normalizeForFingerprint\<close> builds is made of new objects only and is used
  for one thing, \<^verbatim>\<open>JSON.stringify\<close>; it is a tree.
\<close>

datatype json =
    NUndefined
  | NNull
  | NBool bool
  | NNum string
  | NStr string
  | NArr "json list"
  | NRec "(string \<times> json) list"

definition primitive :: "jsval \<Rightarrow> json" where
  "primitive v =
     (case v of
        JNull \<Rightarrow> NNull
      | JBool b \<Rightarrow> NBool b
      | JNum n \<Rightarrow> NNum n
      | JStr s \<Rightarrow> NStr s
      | _ \<Rightarrow> NUndefined)"

definition rootDocKey :: "bool \<Rightarrow> string \<Rightarrow> bool" where
  "rootDocKey isRoot key = (isRoot \<and> (key = ''description'' \<or> key = ''summary''))"

text \<open>
  \<^verbatim>\<open>normalizeForFingerprint(value, isRoot, seen)\<close>.  The set \<open>seen\<close> is one mutable
  \<^verbatim>\<open>WeakSet\<close> shared by the whole traversal, so it is threaded through: each call
  returns it as it leaves it.  \<open>objectOf\<close> is the object \<^verbatim>\<open>result\<close>, built by the
  assignments \<^verbatim>\<open>result[key] = ...\<close> in the sorted order of the keys.  The first argument
  bounds the depth of the recursion; \<open>None\<close> means the bound was too small.
\<close>

text \<open>
  Modelled from the spec: the order of \<^verbatim>\<open>left.localeCompare(right)\<close>, which is the
  platform's collation and not code of the repository.  The spec has the keys sorted
  lexicographically; \<open>sortByKey\<close> sorts them, stably, in the lexicographic order of the
  character codes.
\<close>

definition sortByKey :: "(string \<times> 'v) list \<Rightarrow> (string \<times> 'v) list" where
  "sortByKey es = sort_key fst es"

definition objectOf :: "(string \<times> 'v) list \<Rightarrow> (string \<times> 'v) list" where
  "objectOf members = foldl (\<lambda>result e. putProp result (fst e) (snd e)) [] members"

fun normalizeForFingerprint ::
      "nat \<Rightarrow> heap \<Rightarrow> jsval \<Rightarrow> bool \<Rightarrow> nat set \<Rightarrow> (json \<times> nat set) option"
  and normalizeItems ::
      "nat \<Rightarrow> heap \<Rightarrow> jsval list \<Rightarrow> nat set \<Rightarrow> (json list \<times> nat set) option"
  and normalizeFields ::
      "nat \<Rightarrow> heap \<Rightarrow> (string \<times> jsval) list \<Rightarrow> nat set
         \<Rightarrow> ((string \<times> json) list \<times> nat set) option"
where
  "normalizeForFingerprint 0 h v isRoot seen = None"
| "normalizeForFingerprint (Suc n) h v isRoot seen =
     (case v of
        JRef a \<Rightarrow>
          (case obj_at h a of
             None \<Rightarrow> Some (NUndefined, seen)
           | Some ob \<Rightarrow>
               if a \<in> seen then Some (NStr ''[Circular]'', seen)
               else (case ob of
                       JArray items \<Rightarrow>
                         (case normalizeItems n h items (insert a seen) of
                            None \<Rightarrow> None
                          | Some (normalized, seen') \<Rightarrow> Some (NArr normalized, seen' - {a}))
                     | JRecord es \<Rightarrow>
                         (case normalizeFields n h
                                 (sortByKey (filter (\<lambda>e. \<not> rootDocKey isRoot (fst e)) es))
                                 (insert a seen) of
                            None \<Rightarrow> None
                          | Some (result, seen') \<Rightarrow> Some (NRec (objectOf result), seen' - {a}))))
      | _ \<Rightarrow> Some (primitive v, seen))"
| "normalizeItems n h [] seen = Some ([], seen)"
| "normalizeItems n h (entry # rest) seen =
     (case normalizeForFingerprint n h entry False seen of
        None \<Rightarrow> None
      | Some (x, seen') \<Rightarrow>
          (case normalizeItems n h rest seen' of
             None \<Rightarrow> None
           | Some (xs, seen'') \<Rightarrow> Some (x # xs, seen'')))"
| "normalizeFields n h [] seen = Some ([], seen)"
| "normalizeFields n h ((key, entry) # rest) seen =
     (case normalizeForFingerprint n h entry False seen of
        None \<Rightarrow> None
      | Some (x, seen') \<Rightarrow>
          (case normalizeFields n h rest seen' of
             None \<Rightarrow> None
           | Some (xs, seen'') \<Rightarrow> Some ((key, x) # xs, seen'')))"

subsection \<open>\<^verbatim>\<open>JSON.stringify\<close>\<close>

text \<open>
  The ECMAScript built-in on the trees above, without indentation: a record member whose
  value is \<^verbatim>\<open>undefined\<close> is left out, an array element that is \<^verbatim>\<open>undefined\<close> is
  written \<^verbatim>\<open>null\<close>, and so is a number that is not finite.
\<close>

definition hexDigit :: "nat \<Rightarrow> char" where
  "hexDigit n = (if n < 10 then char_of (48 + n) else char_of (87 + n))"

definition quoteChar :: "char \<Rightarrow> string" where
  "quoteChar c =
     (let n = (of_char c :: nat) in
      if n = 8 then [CHR 0x5C, CHR ''b'']
      else if n = 9 then [CHR 0x5C, CHR ''t'']
      else if n = 10 then [CHR 0x5C, CHR ''n'']
      else if n = 12 then [CHR 0x5C, CHR ''f'']
      else if n = 13 then [CHR 0x5C, CHR ''r'']
      else if n = 34 then [CHR 0x5C, CHR 0x22]
      else if n = 92 then [CHR 0x5C, CHR 0x5C]
      else if n < 32 then [CHR 0x5C, CHR ''u'', CHR ''0'', CHR ''0'', hexDigit (n div 16), hexDigit (n mod 16)]
      else [c])"

definition quoteJSONString :: "string \<Rightarrow> string" where
  "quoteJSONString s = CHR 0x22 # concat (map quoteChar s) @ [CHR 0x22]"

fun joinWith :: "string \<Rightarrow> string list \<Rightarrow> string" where
  "joinWith sep [] = []"
| "joinWith sep [x] = x"
| "joinWith sep (x # y # ys) = x @ sep @ joinWith sep (y # ys)"

fun JSON_stringify :: "json \<Rightarrow> string"
  and stringifyElements :: "json list \<Rightarrow> string list"
  and stringifyMembers :: "(string \<times> json) list \<Rightarrow> string list"
where
  "JSON_stringify NUndefined = ''null''"
| "JSON_stringify NNull = ''null''"
| "JSON_stringify (NBool b) = (if b then ''true'' else ''false'')"
| "JSON_stringify (NNum n) =
     (if n = ''NaN'' \<or> n = ''Infinity'' \<or> n = ''-Infinity'' then ''null'' else n)"
| "JSON_stringify (NStr s) = quoteJSONString s"
| "JSON_stringify (NArr xs) = ''['' @ joinWith '','' (stringifyElements xs) @ '']''"
| "JSON_stringify (NRec es) = ''{'' @ joinWith '','' (stringifyMembers es) @ ''}''"
| "stringifyElements [] = []"
| "stringifyElements (x # xs) = JSON_stringify x # stringifyElements xs"
| "stringifyMembers [] = []"
| "stringifyMembers ((k, v) # es) =
     (if v = NUndefined then stringifyMembers es
      else (quoteJSONString k @ '':'' @ JSON_stringify v) # stringifyMembers es)"

text \<open>
  \<^verbatim>\<open>createSchemaFingerprint(schema)\<close>.  A traversal never goes deeper than the number of
  objects of the heap, so the bound \<open>length h + 1\<close> is enough (\<open>normalize_total\<close> below):
  the second case is never taken.
\<close>

definition createSchemaFingerprint :: "heap \<Rightarrow> jsval \<Rightarrow> string" where
  "createSchemaFingerprint h schema =
     (case normalizeForFingerprint (length h + 1) h schema True {} of
        Some (normalized, seen) \<Rightarrow> JSON_stringify normalized
      | None \<Rightarrow> [])"

section \<open>The platform\<close>

text \<open>
  What the normaliser takes from outside its own files: Node's \<^verbatim>\<open>path\<close> module, the
  reading of an array index with \<^verbatim>\<open>Number\<close>, the parser that loads an external
  schema file, and the test \<^verbatim>\<open>isOpenAPI\<close> of \<^verbatim>\<open>../assertions.js\<close>.  They are
  parameters of the model.  A file that \<^verbatim>\<open>$RefParser.parse\<close>
  loads is a new object graph; it is given as a list of new objects whose references
  count from the first of them (\<open>JRef 0\<close> is the parsed schema), or \<open>None\<close> when parsing
  throws.
\<close>

record env =
  basename :: "string \<Rightarrow> string"
  dirname :: "string \<Rightarrow> string"
  isAbsolute :: "string \<Rightarrow> bool"
  normalize :: "string \<Rightarrow> string"
  resolve :: "string \<Rightarrow> string \<Rightarrow> string"
  integerOf :: "string \<Rightarrow> int option"
  parseFile :: "string \<Rightarrow> (jsval \<times> jsobj list) option"
  isOpenAPI :: "heap \<Rightarrow> jsval \<Rightarrow> bool"

text \<open>
  An instance of the platform for the worked examples: POSIX paths without \<^verbatim>\<open>.\<close> and
  \<^verbatim>\<open>..\<close> segments, decimal array indices, and no file to load.
\<close>

definition lastSegment :: "string \<Rightarrow> string" where
  "lastSegment p = rev (takeWhile (\<lambda>c. c \<noteq> CHR ''/'') (rev p))"

definition parentDir :: "string \<Rightarrow> string" where
  "parentDir p = rev (tl (dropWhile (\<lambda>c. c \<noteq> CHR ''/'') (rev p)))"

definition decimalOf :: "string \<Rightarrow> int option" where
  "decimalOf token =
     (if list_all isDigit token
      then Some (foldl (\<lambda>n c. 10 * n + (int (of_char c) - 48)) 0 token)
      else None)"

text \<open>
  Modelled from the spec: \<^verbatim>\<open>isOpenAPI\<close>, whose file is not among the sources.  A document
  is recognizable as OpenAPI 3.x when it has \<^verbatim>\<open>openapi\<close> starting with \<^verbatim>\<open>3.\<close>
\<close>

definition openapi3 :: "heap \<Rightarrow> jsval \<Rightarrow> bool" where
  "openapi3 h schema =
     (case getProp h schema ''openapi'' of JStr version \<Rightarrow> startsWith version ''3.'' | _ \<Rightarrow> False)"

definition posix :: env where
  "posix =
     \<lparr> basename = lastSegment,
       dirname = parentDir,
       isAbsolute = (\<lambda>p. startsWith p ''/''),
       normalize = (\<lambda>p. p),
       resolve = (\<lambda>dir p. if startsWith p ''/'' then p
                           else dir @ ''/'' @ (if startsWith p ''./'' then drop 2 p else p)),
       integerOf = decimalOf,
       parseFile = (\<lambda>p. None),
       isOpenAPI = openapi3 \<rparr>"

section \<open>Component names (helpers/naming.ts)\<close>

text \<open>
  \<^verbatim>\<open>name.replace(/\.[^./\\]+$/u, '')\<close>: a last extension is cut off, that is a dot
  followed to the end of the string by one or more characters other than dot, slash and
  backslash.
\<close>

definition extChar :: "char \<Rightarrow> bool" where
  "extChar c = (c \<noteq> CHR ''.'' \<and> c \<noteq> CHR ''/'' \<and> c \<noteq> CHR 0x5C)"

definition stripExtension :: "string \<Rightarrow> string" where
  "stripExtension name =
     (let ext = takeWhile extChar (rev name);
          rest = dropWhile extChar (rev name)
      in if ext \<noteq> [] \<and> rest \<noteq> [] \<and> hd rest = CHR ''.'' then rev (tl rest) else name)"

definition createSchemaNameFromSourcePath :: "env \<Rightarrow> string \<Rightarrow> string" where
  "createSchemaNameFromSourcePath E sourcePath =
     (let fileName = basename E sourcePath;
          withoutExtension = stripExtension fileName;
          normalized = map (\<lambda>c. if isAlnum c \<or> c = CHR ''.'' \<or> c = CHR ''_'' \<or> c = CHR ''-''
                                  then c else CHR ''-'') withoutExtension
      in if normalized = [] then ''Schema'' else normalized)"

text \<open>
  \<^verbatim>\<open>replace(/[^a-zA-Z0-9]+/g, ' ').trim()\<close> and \<^verbatim>\<open>split(/\s+/u).filter(Boolean)\<close>
  together leave the maximal runs of letters and digits.
\<close>

fun alnumRuns :: "string \<Rightarrow> string list" where
  "alnumRuns [] = []"
| "alnumRuns (c # cs) =
     (if isAlnum c
      then (case alnumRuns cs of
              [] \<Rightarrow> [[c]]
            | w # ws \<Rightarrow> (if cs \<noteq> [] \<and> isAlnum (hd cs) then (c # w) # ws else [c] # w # ws))
      else alnumRuns cs)"

definition capitalize :: "string \<Rightarrow> string" where
  "capitalize part = (case part of [] \<Rightarrow> [] | c # cs \<Rightarrow> toUpperChar c # cs)"

definition normalizeComponentName :: "string \<Rightarrow> string" where
  "normalizeComponentName name =
     (let withoutExtension = stripExtension name;
          parts = alnumRuns withoutExtension
      in if parts = [] then ''Schema'' else concat (map capitalize parts))"

definition ignoredPointerNameTokens :: "string list" where
  "ignoredPointerNameTokens =
     [''allOf'', ''anyOf'', ''components'', ''content'', ''items'', ''oneOf'', ''paths'',
      ''post'', ''put'', ''patch'', ''get'', ''delete'', ''head'', ''trace'', ''options'',
      ''requestBody'', ''responses'', ''schema'', ''schemas'']"

definition skippedNameToken :: "string \<Rightarrow> bool" where
  "skippedNameToken token =
     (token = [] \<or> list_all isDigit token \<or> CHR ''/'' \<in> set token
      \<or> token \<in> set ignoredPointerNameTokens \<or> startsWith token ''application/'')"

definition createSchemaNameFromPointer :: "string \<Rightarrow> string" where
  "createSchemaNameFromPointer pointer =
     (let tokens = map decodeJsonPointerToken (splitOn CHR ''/'' (drop 2 pointer)) in
      case filter (\<lambda>token. \<not> skippedNameToken token) (rev tokens) of
        token # rest \<Rightarrow> normalizeComponentName token
      | [] \<Rightarrow> (if tokens \<noteq> [] then normalizeComponentName (last tokens) else ''Schema''))"

section \<open>Local pointers (helpers/pointers.ts)\<close>

definition isComponentSchemaRootPointer :: "string \<Rightarrow> bool" where
  "isComponentSchemaRootPointer pointer =
     (startsWith pointer ''#/components/schemas/''
      \<and> drop 21 pointer \<noteq> [] \<and> CHR ''/'' \<notin> set (drop 21 pointer))"

text \<open>
  The loop of \<^verbatim>\<open>resolveLocalPointer\<close> over the decoded tokens.  An array is read at
  \<^verbatim>\<open>Number(token)\<close> when that is an integer; an index outside the array gives
  \<^verbatim>\<open>undefined\<close>.
\<close>

fun resolveTokens :: "env \<Rightarrow> heap \<Rightarrow> jsval \<Rightarrow> string list \<Rightarrow> jsval" where
  "resolveTokens E h current [] = current"
| "resolveTokens E h current (token # rest) =
     (case current of
        JRef a \<Rightarrow>
          (case obj_at h a of
             Some (JArray xs) \<Rightarrow>
               (case integerOf E token of
                  None \<Rightarrow> JUndefined
                | Some i \<Rightarrow>
                    resolveTokens E h
                      (if 0 \<le> i \<and> nat i < length xs then xs ! nat i else JUndefined) rest)
           | Some (JRecord es) \<Rightarrow> resolveTokens E h (lookup es token) rest
           | None \<Rightarrow> JUndefined)
      | _ \<Rightarrow> JUndefined)"

definition resolveLocalPointer :: "env \<Rightarrow> heap \<Rightarrow> jsval \<Rightarrow> string \<Rightarrow> jsval" where
  "resolveLocalPointer E h root pointer =
     (if pointer = ''#'' then root
      else if \<not> startsWith pointer ''#/'' then JUndefined
      else resolveTokens E h root
             (map decodeJsonPointerToken (splitOn CHR ''/'' (drop 2 pointer))))"

section \<open>The schema registry (helpers/registry.ts)\<close>

text \<open>
  \<open>componentSchemas\<close> is the reference to the record \<^verbatim>\<open>components.schemas\<close> of the
  document; \<open>schemaPointersByValue\<close> is a \<^verbatim>\<open>WeakMap\<close> keyed by object identity.
\<close>

record registry =
  schemaNames :: "string list"
  schemaPointersByValue :: "nat \<Rightarrow> string option"
  componentSchemas :: nat

definition componentPointer :: "string \<Rightarrow> string" where
  "componentPointer name = ''#/components/schemas/'' @ encodeJsonPointerToken name"

text \<open>
  The loop over \<^verbatim>\<open>Object.entries(componentSchemas)\<close> that fills the
  \<^verbatim>\<open>WeakMap\<close>: a later entry for the same object replaces an earlier one.
\<close>

fun indexComponents ::
  "heap \<Rightarrow> (string \<times> jsval) list \<Rightarrow> (nat \<Rightarrow> string option) \<Rightarrow> (nat \<Rightarrow> string option)" where
  "indexComponents h [] pointers = pointers"
| "indexComponents h ((name, v) # rest) pointers =
     indexComponents h rest
       (case v of
          JRef a \<Rightarrow> (if isObject h v then pointers(a \<mapsto> componentPointer name) else pointers)
        | _ \<Rightarrow> pointers)"

text \<open>
  \<^verbatim>\<open>if (!record[key]) { record[key] = {}; }\<close> followed by reading \<^verbatim>\<open>record[key]\<close>.
\<close>

definition ensureRecordProp :: "heap \<Rightarrow> nat \<Rightarrow> string \<Rightarrow> heap \<times> jsval" where
  "ensureRecordProp h a key =
     (if \<not> truthy (getProp h (JRef a) key)
      then (let (h', fresh) = alloc h (JRecord []) in (setProp h' a key fresh, fresh))
      else (h, getProp h (JRef a) key))"

text \<open>
  \<^verbatim>\<open>createSchemaRegistry(schema)\<close>.  The document is a record; \<^verbatim>\<open>components\<close> and
  \<^verbatim>\<open>components.schemas\<close> are created when they are missing (falsy).  \<open>None\<close> stands for
  a document whose \<^verbatim>\<open>components\<close> or \<^verbatim>\<open>components.schemas\<close> is something else than
  a record: such a document is not an OpenAPI document and is not modelled.
\<close>

definition createSchemaRegistry :: "heap \<Rightarrow> jsval \<Rightarrow> (heap \<times> registry) option" where
  "createSchemaRegistry h schema =
     (case schema of
        JRef r \<Rightarrow>
          if \<not> isRecord h schema then None
          else
            let (h1, components) = ensureRecordProp h r ''components'' in
            (case components of
               JRef c \<Rightarrow>
                 if \<not> isRecord h1 components then None
                 else
                   let (h2, schemas) = ensureRecordProp h1 c ''schemas'' in
                   (case schemas of
                      JRef s \<Rightarrow>
                        if \<not> isRecord h2 schemas then None
                        else Some (h2,
                          \<lparr> schemaNames = foldl set_add [] (map fst (entries h2 schemas)),
                            schemaPointersByValue =
                              indexComponents h2 (entries h2 schemas) (\<lambda>a. None),
                            componentSchemas = s \<rparr>)
                    | _ \<Rightarrow> None)
             | _ \<Rightarrow> None)
      | _ \<Rightarrow> None)"

text \<open>
  \<^verbatim>\<open>registerSchemaInComponents(registry, schema, preferredName)\<close>; the schema is an
  object, given by its reference.
\<close>

definition registerSchemaInComponents ::
  "heap \<times> registry \<Rightarrow> nat \<Rightarrow> string \<Rightarrow> (heap \<times> registry) \<times> string" where
  "registerSchemaInComponents hr schema preferredName =
     (let (h, reg) = hr in
      case schemaPointersByValue reg schema of
        Some existingPointer \<Rightarrow>
          if existingPointer \<noteq> [] then (hr, existingPointer)
          else (let (uniqueName, names) = createUniqueSchemaName preferredName (schemaNames reg);
                    pointer = componentPointer uniqueName
                in ((setProp h (componentSchemas reg) uniqueName (JRef schema),
                     reg \<lparr> schemaNames := names,
                           schemaPointersByValue := (schemaPointersByValue reg)(schema \<mapsto> pointer) \<rparr>),
                    pointer))
      | None \<Rightarrow>
          (let (uniqueName, names) = createUniqueSchemaName preferredName (schemaNames reg);
               pointer = componentPointer uniqueName
           in ((setProp h (componentSchemas reg) uniqueName (JRef schema),
                reg \<lparr> schemaNames := names,
                      schemaPointersByValue := (schemaPointersByValue reg)(schema \<mapsto> pointer) \<rparr>),
               pointer)))"

section \<open>The external-schema resolver (helpers/externalResolver.ts)\<close>

text \<open>
  A \<^verbatim>\<open>Map\<close> with string keys is the list of its entries in insertion order, a
  \<^verbatim>\<open>WeakMap\<close> is a function on object references, a schema object is its reference.
\<close>

record resolver =
  nameByValue :: "nat \<Rightarrow> string option"
  namesByFingerprint :: "(string \<times> string list) list"
  canonicalByName :: "(string \<times> nat) list"
  canonicalByFingerprint :: "(string \<times> (string \<times> nat) list) list"
  schemaBySourcePath :: "(string \<times> nat) list"
  sourcePathsByBaseName :: "(string \<times> string list) list"
  componentNameBySourcePath :: "(string \<times> string) list"
  sourcePathByValue :: "nat \<Rightarrow> string option"
  sourcePathByComponentName :: "(string \<times> string) list"
  loadingSourcePaths :: "string list"

definition createExternalSchemaNameResolver :: resolver where
  "createExternalSchemaNameResolver =
     \<lparr> nameByValue = (\<lambda>a. None),
       namesByFingerprint = [],
       canonicalByName = [],
       canonicalByFingerprint = [],
       schemaBySourcePath = [],
       sourcePathsByBaseName = [],
       componentNameBySourcePath = [],
       sourcePathByValue = (\<lambda>a. None),
       sourcePathByComponentName = [],
       loadingSourcePaths = [] \<rparr>"

definition likelySchemaKeys :: "string list" where
  "likelySchemaKeys =
     [''$ref'', ''additionalProperties'', ''allOf'', ''anyOf'', ''const'', ''discriminator'',
      ''enum'', ''format'', ''items'', ''not'', ''oneOf'', ''patternProperties'',
      ''properties'', ''required'', ''type'']"

definition isLikelySchemaObject :: "heap \<Rightarrow> jsval \<Rightarrow> bool" where
  "isLikelySchemaObject h v = list_ex (\<lambda>key. key \<in> fst ` set (entries h v)) likelySchemaKeys"

definition getOr :: "('k \<times> 'v) list \<Rightarrow> 'k \<Rightarrow> 'v \<Rightarrow> 'v" where
  "getOr m k d = (case map_of m k of Some v \<Rightarrow> v | None \<Rightarrow> d)"

definition addExternalNameCandidate :: "heap \<Rightarrow> resolver \<Rightarrow> nat \<Rightarrow> string \<Rightarrow> resolver" where
  "addExternalNameCandidate h R schema schemaName =
     (if \<not> isLikelySchemaObject h (JRef schema) then R
      else
        let fingerprint = createSchemaFingerprint h (JRef schema);
            names = set_add (getOr (namesByFingerprint R) fingerprint []) schemaName;
            byName = assign (getOr (canonicalByFingerprint R) fingerprint []) schemaName schema
        in R \<lparr> nameByValue := (nameByValue R)(schema \<mapsto> schemaName),
                canonicalByName := assign (canonicalByName R) schemaName schema,
                namesByFingerprint := assign (namesByFingerprint R) fingerprint names,
                canonicalByFingerprint := assign (canonicalByFingerprint R) fingerprint byName \<rparr>)"

definition registerExternalSourcePath ::
  "env \<Rightarrow> heap \<Rightarrow> resolver \<Rightarrow> string \<Rightarrow> nat \<Rightarrow> resolver" where
  "registerExternalSourcePath E h R sourcePath schema =
     (if \<not> isLikelySchemaObject h (JRef schema) then R
      else
        let baseName = toLowerCase (basename E sourcePath);
            paths = set_add (getOr (sourcePathsByBaseName R) baseName []) sourcePath
        in R \<lparr> schemaBySourcePath := assign (schemaBySourcePath R) sourcePath schema,
                sourcePathByValue := (sourcePathByValue R)(schema \<mapsto> sourcePath),
                sourcePathsByBaseName := assign (sourcePathsByBaseName R) baseName paths \<rparr>)"

text \<open>
  \<^verbatim>\<open>resolveExternalSchemaCandidate(schema, resolver)\<close>: a candidate is a name and the
  canonical schema object; \<open>None\<close> is \<^verbatim>\<open>undefined\<close>.  The two tests
  \<^verbatim>\<open>if (byIdentityName)\<close> and \<^verbatim>\<open>if (canonicalByIdentity)\<close> are tests of truthiness.
\<close>

definition candidateByFingerprint :: "heap \<Rightarrow> jsval \<Rightarrow> resolver \<Rightarrow> (string \<times> nat) option" where
  "candidateByFingerprint h schema R =
     (case map_of (canonicalByFingerprint R) (createSchemaFingerprint h schema) of
        None \<Rightarrow> None
      | Some candidates \<Rightarrow> (if length candidates \<noteq> 1 then None else Some (hd candidates)))"

definition resolveExternalSchemaCandidate ::
  "heap \<Rightarrow> jsval \<Rightarrow> resolver \<Rightarrow> (string \<times> nat) option" where
  "resolveExternalSchemaCandidate h schema R =
     (case (case schema of JRef a \<Rightarrow> nameByValue R a | _ \<Rightarrow> None) of
        Some byIdentityName \<Rightarrow>
          if byIdentityName \<noteq> [] then
            (case map_of (canonicalByName R) byIdentityName of
               Some canonicalByIdentity \<Rightarrow> Some (byIdentityName, canonicalByIdentity)
             | None \<Rightarrow> candidateByFingerprint h schema R)
          else candidateByFingerprint h schema R
      | None \<Rightarrow> candidateByFingerprint h schema R)"

text \<open>The index of the components that have the name of an external candidate.\<close>

fun indexByFingerprint ::
  "heap \<Rightarrow> resolver \<Rightarrow> (string \<times> jsval) list \<Rightarrow> (string \<times> (string \<times> nat) list) list
     \<Rightarrow> (string \<times> (string \<times> nat) list) list" where
  "indexByFingerprint h R [] index = index"
| "indexByFingerprint h R ((name, schema) # rest) index =
     indexByFingerprint h R rest
       (case schema of
          JRef a \<Rightarrow>
            if map_of (canonicalByName R) name = None \<or> \<not> isRecord h schema then index
            else (let fingerprint = createSchemaFingerprint h schema
                  in assign index fingerprint (getOr index fingerprint [] @ [(name, a)]))
        | _ \<Rightarrow> index)"

definition buildExternalComponentFingerprintIndex ::
  "heap \<Rightarrow> registry \<Rightarrow> resolver \<Rightarrow> (string \<times> (string \<times> nat) list) list" where
  "buildExternalComponentFingerprintIndex h reg R =
     indexByFingerprint h R (entries h (JRef (componentSchemas reg))) []"

definition resolveExternalComponentCandidate ::
  "heap \<Rightarrow> jsval \<Rightarrow> (string \<times> (string \<times> nat) list) list \<Rightarrow> (string \<times> nat) option" where
  "resolveExternalComponentCandidate h schema index =
     (case map_of index (createSchemaFingerprint h schema) of
        None \<Rightarrow> None
      | Some matches \<Rightarrow> (if length matches \<noteq> 1 then None else Some (hd matches)))"

definition resolveMatchingSourcePath :: "string \<Rightarrow> string \<Rightarrow> resolver \<Rightarrow> string option" where
  "resolveMatchingSourcePath pathRef baseName R =
     (case map_of (sourcePathsByBaseName R) baseName of
        None \<Rightarrow> None
      | Some candidates \<Rightarrow>
          if candidates = [] then None
          else if length candidates = 1 then Some (hd candidates)
          else
            let normalizedRef =
                  toLowerCase (if startsWith pathRef ''./'' then drop 2 pathRef else pathRef);
                exactSuffixMatches =
                  filter (\<lambda>sourcePath. endsWith (toLowerCase sourcePath) (''/'' @ normalizedRef))
                    candidates
            in if length exactSuffixMatches = 1 then Some (hd exactSuffixMatches) else None)"

section \<open>The walker (helpers/walk.ts)\<close>

definition schemaContextKeys :: "string list" where
  "schemaContextKeys =
     [''$defs'', ''additionalProperties'', ''allOf'', ''anyOf'', ''contains'', ''definitions'',
      ''dependentSchemas'', ''else'', ''if'', ''items'', ''not'', ''oneOf'',
      ''patternProperties'', ''prefixItems'', ''properties'', ''propertyNames'', ''schema'',
      ''schemas'', ''then'', ''unevaluatedItems'', ''unevaluatedProperties'']"

text \<open>The place of a value in its parent: a key of a record or an index of an array.\<close>

datatype pkey = PKey string | PIndex nat

text \<open>
  The visitor gets the value, its pointer, whether it is in a schema context, and the parent
  with the key (both absent at the root).  It may change the heap and whatever else the
  pass keeps (\<open>'a\<close>).
\<close>

type_synonym 'a visitor =
  "jsval \<Rightarrow> string \<Rightarrow> bool \<Rightarrow> (nat \<times> pkey) option \<Rightarrow> heap \<times> 'a \<Rightarrow> heap \<times> 'a"

text \<open>
  The children a loop of the walker goes through.  \<^verbatim>\<open>Object.entries\<close> takes the
  entries of a record once, before the loop: a child of a record is the key with the value
  it had then.  \<^verbatim>\<open>Array.forEach\<close> visits the indices the array had when the loop
  began and reads each element when its turn comes: a child of an array is the index
  alone.
\<close>

definition children :: "heap \<Rightarrow> nat \<Rightarrow> (pkey \<times> jsval option) list" where
  "children h a =
     (case obj_at h a of
        Some (JArray items) \<Rightarrow> map (\<lambda>i. (PIndex i, None)) [0..<length items]
      | Some (JRecord es) \<Rightarrow> map (\<lambda>e. (PKey (fst e), Some (snd e))) es
      | None \<Rightarrow> [])"

definition childValue :: "heap \<Rightarrow> nat \<Rightarrow> pkey \<times> jsval option \<Rightarrow> jsval" where
  "childValue h a d =
     (case d of
        (PIndex i, x) \<Rightarrow>
          (case obj_at h a of
             Some (JArray items) \<Rightarrow> (if i < length items then items ! i else JUndefined)
           | _ \<Rightarrow> JUndefined)
      | (PKey k, Some v) \<Rightarrow> v
      | (PKey k, None) \<Rightarrow> JUndefined)"

definition childPointer :: "string \<Rightarrow> pkey \<Rightarrow> string" where
  "childPointer pointer k =
     pointer @ ''/'' @
       encodeJsonPointerToken (case k of PKey key \<Rightarrow> key | PIndex i \<Rightarrow> String_of_nat i)"

definition childContext :: "bool \<Rightarrow> pkey \<Rightarrow> bool" where
  "childContext inSchemaContext k =
     (case k of
        PKey key \<Rightarrow> inSchemaContext \<or> key \<in> set schemaContextKeys
      | PIndex i \<Rightarrow> inSchemaContext)"

text \<open>
  \<^verbatim>\<open>walk(value, inSchemaContext, pointer, seen, visitor, parent, parentKey)\<close>.  The
  \<^verbatim>\<open>WeakSet\<close> \<open>seen\<close> and the heap are threaded through.  The first argument bounds
  the depth of the recursion; \<open>None\<close> means the bound was reached.
\<close>

function (sequential) walk ::
      "nat \<Rightarrow> 'a visitor \<Rightarrow> jsval \<Rightarrow> bool \<Rightarrow> string \<Rightarrow> (nat \<times> pkey) option
         \<Rightarrow> nat set \<times> heap \<times> 'a \<Rightarrow> (nat set \<times> heap \<times> 'a) option"
  and walkChildren ::
      "nat \<Rightarrow> 'a visitor \<Rightarrow> nat \<Rightarrow> bool \<Rightarrow> string \<Rightarrow> (pkey \<times> jsval option) list
         \<Rightarrow> nat set \<times> heap \<times> 'a \<Rightarrow> (nat set \<times> heap \<times> 'a) option"
where
  "walk 0 visitor v inSchemaContext pointer parent st = None"
| "walk (Suc n) visitor (JRef a) inSchemaContext pointer parent (seen, h, acc) =
     (if \<not> isObject h (JRef a) then Some (seen, h, acc)
      else
        let visited = visitor (JRef a) pointer inSchemaContext parent (h, acc) in
        if a \<in> seen then Some (seen, visited)
        else
          (case walkChildren n visitor a inSchemaContext pointer (children (fst visited) a)
                  (insert a seen, visited) of
             None \<Rightarrow> None
           | Some (seen', st') \<Rightarrow> Some (seen' - {a}, st')))"
| "walk (Suc n) visitor v inSchemaContext pointer parent st = Some st"
| "walkChildren n visitor a inSchemaContext pointer [] st = Some st"
| "walkChildren n visitor a inSchemaContext pointer (d # ds) st =
     (case walk n visitor (childValue (fst (snd st)) a d) (childContext inSchemaContext (fst d))
             (childPointer pointer (fst d)) (Some (a, fst d)) st of
        None \<Rightarrow> None
      | Some st' \<Rightarrow> walkChildren n visitor a inSchemaContext pointer ds st')"
  by pat_completeness auto

termination
  by (relation "inv_image (less_than <*lex*> less_than)
        (\<lambda>x. case x of
               Inl (n, visitor, v, inSchemaContext, pointer, parent, st) \<Rightarrow> (n, 0)
             | Inr (n, visitor, a, inSchemaContext, pointer, ds, st) \<Rightarrow> (n, Suc (length ds)))")
     auto

text \<open>
  \<^verbatim>\<open>parent[parentKey] = replacement\<close>, on an array or on a record as the parent is one
  or the other.
\<close>

definition assignChild :: "heap \<Rightarrow> nat \<times> pkey \<Rightarrow> jsval \<Rightarrow> heap" where
  "assignChild h place v =
     (case place of
        (parent, PKey key) \<Rightarrow> setProp h parent key v
      | (parent, PIndex index) \<Rightarrow> setIndex h parent index v)"

definition isString :: "jsval \<Rightarrow> bool" where
  "isString v = (case v of JStr s \<Rightarrow> True | _ \<Rightarrow> False)"

text \<open>The walker calls the visitor on objects only; \<open>refOf\<close> is the reference of an object.\<close>

definition refOf :: "jsval \<Rightarrow> nat" where
  "refOf v = (case v of JRef a \<Rightarrow> a | _ \<Rightarrow> 0)"

section \<open>The rewrite passes (helpers/rewritePasses.ts, helpers/registry.ts)\<close>

subsection \<open>\<^verbatim>\<open>collectSchemaTargets\<close>\<close>

text \<open>
  \<open>externalSchemas\<close> and \<open>found\<close> are \<^verbatim>\<open>Map<object, string>\<close>, keyed by object identity.
\<close>

definition collectVisitor :: "(nat \<times> string) list \<Rightarrow> ((nat \<times> string) list) visitor" where
  "collectVisitor externalSchemas v pointer inSchemaContext parent st =
     (case st of (h, found) \<Rightarrow>
        if \<not> inSchemaContext \<or> map_of externalSchemas (refOf v) = None
           \<or> startsWith pointer ''#/components/schemas/''
        then st
        else if map_of found (refOf v) = None
        then (h, assign found (refOf v) (getOr externalSchemas (refOf v) []))
        else st)"

definition collectSchemaTargets ::
  "nat \<Rightarrow> heap \<Rightarrow> jsval \<Rightarrow> (nat \<times> string) list \<Rightarrow> (string \<times> nat) list option" where
  "collectSchemaTargets depth h root externalSchemas =
     (case walk depth (collectVisitor externalSchemas) root False ''#'' None ({}, h, []) of
        None \<Rightarrow> None
      | Some (seen, h', found) \<Rightarrow> Some (sortByKey (map (\<lambda>e. (snd e, fst e)) found)))"

subsection \<open>\<^verbatim>\<open>rewriteLocalSchemaRefsToComponents\<close>\<close>

definition localRefVisitor :: "env \<Rightarrow> jsval \<Rightarrow> resolver \<Rightarrow> registry visitor" where
  "localRefVisitor E root R v pointer inSchemaContext parent st =
     (case st of (h, reg) \<Rightarrow>
        if \<not> inSchemaContext \<or> \<not> isRecord h v then st
        else
          (case getProp h v ''$ref'' of
             JStr ref \<Rightarrow>
               if \<not> startsWith ref ''#/'' \<or> startsWith ref ''#/components/schemas/'' then st
               else
                 let resolved = resolveLocalPointer E h root ref in
                 if \<not> isRecord h resolved then st
                 else
                   let externalMatch = resolveExternalSchemaCandidate h resolved R;
                       preferredName =
                         (case externalMatch of
                            Some (name, schema) \<Rightarrow>
                              if name \<noteq> [] then name else createSchemaNameFromPointer ref
                          | None \<Rightarrow> createSchemaNameFromPointer ref);
                       schemaForComponent =
                         (case externalMatch of
                            Some (name, schema) \<Rightarrow> schema
                          | None \<Rightarrow> refOf resolved);
                       registration = registerSchemaInComponents (h, reg) schemaForComponent preferredName
                   in if ref \<noteq> snd registration
                      then (setProp (fst (fst registration)) (refOf v) ''$ref'' (JStr (snd registration)),
                            snd (fst registration))
                      else fst registration
           | _ \<Rightarrow> st))"

definition rewriteLocalSchemaRefsToComponents ::
  "nat \<Rightarrow> env \<Rightarrow> jsval \<Rightarrow> resolver \<Rightarrow> heap \<times> registry \<Rightarrow> (heap \<times> registry) option" where
  "rewriteLocalSchemaRefsToComponents depth E root R hr =
     (case walk depth (localRefVisitor E root R) root False ''#'' None ({}, hr) of
        None \<Rightarrow> None
      | Some (seen, hr') \<Rightarrow> Some hr')"

subsection \<open>\<^verbatim>\<open>rewriteInlineExternalSchemasToComponentRefs\<close>\<close>

text \<open>
  The replacement record \<^verbatim>\<open>{ $ref, summary?, description? }\<close>, as the list of its
  properties; it becomes an object of the heap when it is put in the place of the value.
\<close>

definition refReplacement :: "heap \<Rightarrow> jsval \<Rightarrow> string \<Rightarrow> (string \<times> jsval) list" where
  "refReplacement h v pointerOfComponent =
     [(''$ref'', JStr pointerOfComponent)]
     @ (if isString (getProp h v ''summary'') then [(''summary'', getProp h v ''summary'')] else [])
     @ (if isString (getProp h v ''description'')
        then [(''description'', getProp h v ''description'')] else [])"

definition isEquivalentRefReplacement :: "heap \<Rightarrow> jsval \<Rightarrow> (string \<times> jsval) list \<Rightarrow> bool" where
  "isEquivalentRefReplacement h v replacement =
     (if getProp h v ''$ref'' \<noteq> lookup replacement ''$ref'' then False
      else if getProp h v ''summary'' \<noteq> lookup replacement ''summary''
              \<or> getProp h v ''description'' \<noteq> lookup replacement ''description'' then False
      else list_all (\<lambda>key. key \<in> set [''$ref'', ''summary'', ''description''])
             (map fst (entries h v)))"

definition inlineVisitor ::
  "resolver \<Rightarrow> (string \<times> (string \<times> nat) list) list \<Rightarrow> (registry \<times> bool) visitor" where
  "inlineVisitor R externalComponentFingerprints v pointer inSchemaContext parent st =
     (case st of (h, reg, changed) \<Rightarrow>
        if \<not> inSchemaContext \<or> isComponentSchemaRootPointer pointer \<or> parent = None
           \<or> \<not> isRecord h v
        then st
        else
          let matched = resolveExternalSchemaCandidate h v R;
              componentMatched =
                (if matched = None
                 then resolveExternalComponentCandidate h v externalComponentFingerprints
                 else None);
              selected = (case matched of Some m \<Rightarrow> Some m | None \<Rightarrow> componentMatched)
          in (case selected of
                None \<Rightarrow> st
              | Some (name, schema) \<Rightarrow>
                  let registration = registerSchemaInComponents (h, reg) schema name;
                      h1 = fst (fst registration);
                      replacement = refReplacement h1 v (snd registration)
                  in if isEquivalentRefReplacement h1 v replacement
                     then (h1, snd (fst registration), changed)
                     else (assignChild (fst (alloc h1 (JRecord replacement))) (the parent)
                             (snd (alloc h1 (JRecord replacement))),
                           snd (fst registration), True)))"

text \<open>One turn of the loop: the index is rebuilt, the document is walked once.\<close>

definition inlineTraversal ::
  "nat \<Rightarrow> jsval \<Rightarrow> resolver \<Rightarrow> heap \<times> registry \<Rightarrow> ((heap \<times> registry) \<times> bool) option" where
  "inlineTraversal depth root R hr =
     (case walk depth
             (inlineVisitor R (buildExternalComponentFingerprintIndex (fst hr) (snd hr) R))
             root False ''#'' None ({}, fst hr, snd hr, False) of
        None \<Rightarrow> None
      | Some (seen, h, reg, changed) \<Rightarrow> Some ((h, reg), changed))"

text \<open>
  \<^verbatim>\<open>while (changed) { ... }\<close>: the loop may go on for ever, and then the value is
  \<open>None\<close>.
\<close>

partial_function (option) rewriteInlineExternalSchemasToComponentRefs ::
  "nat \<Rightarrow> jsval \<Rightarrow> resolver \<Rightarrow> heap \<times> registry \<Rightarrow> (heap \<times> registry) option" where
  "rewriteInlineExternalSchemasToComponentRefs depth root R hr =
     (case inlineTraversal depth root R hr of
        None \<Rightarrow> None
      | Some (hr', changed) \<Rightarrow>
          if changed then rewriteInlineExternalSchemasToComponentRefs depth root R hr'
          else Some hr')"

declare rewriteInlineExternalSchemasToComponentRefs.simps [code]

subsection \<open>\<^verbatim>\<open>replaceHoistedObjectsWithRefs\<close>\<close>

definition hoistedVisitor :: "registry \<Rightarrow> unit visitor" where
  "hoistedVisitor reg v pointer inSchemaContext parent st =
     (case st of (h, u) \<Rightarrow>
        if \<not> inSchemaContext \<or> parent = None then st
        else
          (case schemaPointersByValue reg (refOf v) of
             None \<Rightarrow> st
           | Some pointerOfComponent \<Rightarrow>
               if pointerOfComponent = [] \<or> pointer = pointerOfComponent
                  \<or> isComponentSchemaRootPointer pointer
               then st
               else (assignChild
                       (fst (alloc h (JRecord [(''$ref'', JStr pointerOfComponent)])))
                       (the parent)
                       (snd (alloc h (JRecord [(''$ref'', JStr pointerOfComponent)]))), u)))"

definition replaceHoistedObjectsWithRefs :: "nat \<Rightarrow> jsval \<Rightarrow> registry \<Rightarrow> heap \<Rightarrow> heap option" where
  "replaceHoistedObjectsWithRefs depth root reg h =
     (case walk depth (hoistedVisitor reg) root False ''#'' None ({}, h, ()) of
        None \<Rightarrow> None
      | Some (seen, h', u) \<Rightarrow> Some h')"

section \<open>Source files (helpers/sourceResolution.ts)\<close>

text \<open>
  The registry, the resolver and the heap they live in are what the later passes change
  together.
\<close>

type_synonym world = "heap \<times> registry \<times> resolver"

text \<open>
  \<^verbatim>\<open>looksLikeExternalFileReference\<close>.  The first pattern,
  \<^verbatim>\<open>/^[a-zA-Z][a-zA-Z0-9+.-]*:/\<close>, holds when the longest run of scheme characters after
  a first letter is followed by a colon.  The second, \<^verbatim>\<open>/\.(yaml|yml|json)(#.*)?$/i\<close>,
  holds when the string, or its part before some \<^verbatim>\<open>#\<close> that has no line terminator
  after it, ends with one of the three extensions.
\<close>

definition schemeChar :: "char \<Rightarrow> bool" where
  "schemeChar c = (isAlnum c \<or> c = CHR ''+'' \<or> c = CHR ''.'' \<or> c = CHR ''-'')"

definition hasScheme :: "string \<Rightarrow> bool" where
  "hasScheme s =
     (case s of
        [] \<Rightarrow> False
      | c # cs \<Rightarrow>
          (isUpper c \<or> isLower c)
          \<and> (case dropWhile schemeChar cs of [] \<Rightarrow> False | d # ds \<Rightarrow> d = CHR '':''))"

definition hasSchemaExtension :: "string \<Rightarrow> bool" where
  "hasSchemaExtension s =
     (endsWith (toLowerCase s) ''.yaml'' \<or> endsWith (toLowerCase s) ''.yml''
      \<or> endsWith (toLowerCase s) ''.json'')"

definition lineTerminator :: "char \<Rightarrow> bool" where
  "lineTerminator c = (c = CHR 0x0A \<or> c = CHR 0x0D)"

definition looksLikeExternalFileReference :: "string \<Rightarrow> bool" where
  "looksLikeExternalFileReference v =
     (if hasScheme v \<or> startsWith v ''#/'' then False
      else hasSchemaExtension v
           \<or> list_ex (\<lambda>i. v ! i = CHR ''#'' \<and> hasSchemaExtension (take i v)
                            \<and> \<not> list_ex lineTerminator (drop (Suc i) v))
                [0..<length v])"

text \<open>A value that is tested for truthiness and is a string or \<^verbatim>\<open>undefined\<close>.\<close>

definition nonEmpty :: "string option \<Rightarrow> string option" where
  "nonEmpty x = (case x of Some s \<Rightarrow> (if s = [] then None else Some s) | None \<Rightarrow> None)"

definition orElse :: "string option \<Rightarrow> string option \<Rightarrow> string option" where
  "orElse x y = (case nonEmpty x of Some s \<Rightarrow> Some s | None \<Rightarrow> y)"

definition lastToken :: "string \<Rightarrow> string" where
  "lastToken pointer = last (splitOn (CHR ''/'') pointer)"

definition pathOfRef :: "env \<Rightarrow> string \<Rightarrow> string \<Rightarrow> string" where
  "pathOfRef E sourcePath pathRef =
     (if isAbsolute E pathRef then normalize E pathRef
      else normalize E (resolve E (dirname E sourcePath) pathRef))"

definition resolveSourcePathFromSchemaContext ::
  "env \<Rightarrow> heap \<Rightarrow> resolver \<Rightarrow> string \<Rightarrow> nat \<Rightarrow> string \<Rightarrow> string option" where
  "resolveSourcePathFromSchemaContext E h R pathRef schema schemaPointer =
     (let known =
            orElse (sourcePathByValue R schema)
              (if isComponentSchemaRootPointer schemaPointer
               then map_of (sourcePathByComponentName R)
                      (decodeJsonPointerToken (lastToken schemaPointer))
               else None);
          sourcePath =
            (if nonEmpty known = None
             then (case map_of (canonicalByFingerprint R) (createSchemaFingerprint h (JRef schema)) of
                     Some [candidate] \<Rightarrow> sourcePathByValue R (snd candidate)
                   | _ \<Rightarrow> known)
             else known)
      in case nonEmpty sourcePath of
           None \<Rightarrow> None
         | Some found \<Rightarrow> Some (pathOfRef E found pathRef))"

definition resolveSourcePathFromSourceRef :: "env \<Rightarrow> string \<Rightarrow> string \<Rightarrow> string option" where
  "resolveSourcePathFromSourceRef E sourcePath sourceRef =
     (let refPath = hd (splitOn (CHR ''#'') sourceRef)
      in if refPath = [] then None else Some (pathOfRef E sourcePath refPath))"

text \<open>The objects of a parsed file are put after the objects of the heap.\<close>

definition relocate :: "nat \<Rightarrow> jsval \<Rightarrow> jsval" where
  "relocate k v = (case v of JRef a \<Rightarrow> JRef (a + k) | _ \<Rightarrow> v)"

definition relocateObject :: "nat \<Rightarrow> jsobj \<Rightarrow> jsobj" where
  "relocateObject k ob =
     (case ob of
        JRecord es \<Rightarrow> JRecord (map (\<lambda>e. (fst e, relocate k (snd e))) es)
      | JArray xs \<Rightarrow> JArray (map (relocate k) xs))"

text \<open>
  \<^verbatim>\<open>ensureExternalSchemaForSourcePath\<close>.  The path is in \<^verbatim>\<open>loadingSourcePaths\<close> while
  the file is parsed, and is taken out in the \<^verbatim>\<open>finally\<close> block whatever happens.
\<close>

definition ensureExternalSchemaForSourcePath ::
  "env \<Rightarrow> heap \<times> resolver \<Rightarrow> string \<Rightarrow> (heap \<times> resolver) \<times> nat option" where
  "ensureExternalSchemaForSourcePath E hR sourcePath =
     (case map_of (schemaBySourcePath (snd hR)) sourcePath of
        Some existing \<Rightarrow> (hR, Some existing)
      | None \<Rightarrow>
          if set_has (loadingSourcePaths (snd hR)) sourcePath then (hR, None)
          else
            let h = fst hR;
                loading = (snd hR) \<lparr> loadingSourcePaths :=
                                       set_add (loadingSourcePaths (snd hR)) sourcePath \<rparr>;
                finish = (\<lambda>R. R \<lparr> loadingSourcePaths := removeAll sourcePath (loadingSourcePaths R) \<rparr>)
            in (case parseFile E sourcePath of
                  None \<Rightarrow> ((h, finish loading), None)
                | Some (parsed, objects) \<Rightarrow>
                    let h1 = h @ map (relocateObject (length h)) objects;
                        schema = relocate (length h) parsed
                    in if \<not> isRecord h1 schema \<or> \<not> isLikelySchemaObject h1 schema
                       then ((h1, finish loading), None)
                       else ((h1, finish (registerExternalSourcePath E h1
                                          (addExternalNameCandidate h1 loading (refOf schema)
                                             (createSchemaNameFromSourcePath E sourcePath))
                                          sourcePath (refOf schema))),
                             Some (refOf schema))))"

text \<open>
  The end of both \<^verbatim>\<open>ensureComponentPointerForSourcePath\<close> and
  \<^verbatim>\<open>resolveDiscriminatorMappingPointer\<close>, which the source has twice: the schema of the
  source file is registered, and the resolver notes which component the file has become.
\<close>

definition registerSourceComponent :: "env \<Rightarrow> world \<Rightarrow> string \<Rightarrow> nat \<Rightarrow> world \<times> string" where
  "registerSourceComponent E w sourcePath externalSchema =
     (let R = snd (snd w);
          preferredName =
            (case nonEmpty (map_of (componentNameBySourcePath R) sourcePath) of
               Some name \<Rightarrow> name
             | None \<Rightarrow> createSchemaNameFromSourcePath E sourcePath);
          registration = registerSchemaInComponents (fst w, fst (snd w)) externalSchema preferredName;
          pointer = snd registration;
          componentName =
            decodeJsonPointerToken
              (if lastToken pointer \<noteq> [] then lastToken pointer else preferredName)
      in ((fst (fst registration), snd (fst registration),
           R \<lparr> componentNameBySourcePath :=
                  assign (componentNameBySourcePath R) sourcePath componentName,
                sourcePathByComponentName :=
                  assign (sourcePathByComponentName R) componentName sourcePath \<rparr>),
          pointer))"

definition ensureComponentPointerForSourcePath ::
  "env \<Rightarrow> world \<Rightarrow> string \<Rightarrow> world \<times> string option" where
  "ensureComponentPointerForSourcePath E w sourcePath =
     (let loaded = ensureExternalSchemaForSourcePath E (fst w, snd (snd w)) sourcePath;
          w1 = (fst (fst loaded), fst (snd w), snd (fst loaded))
      in case snd loaded of
           None \<Rightarrow> (w1, None)
         | Some externalSchema \<Rightarrow>
             (fst (registerSourceComponent E w1 sourcePath externalSchema),
              Some (snd (registerSourceComponent E w1 sourcePath externalSchema))))"

text \<open>
  \<^verbatim>\<open>resolveDiscriminatorMappingPointer\<close>.  \<^verbatim>\<open>fallbackName in componentSchemas\<close> is
  taken as: the record has the key.
\<close>

definition resolveDiscriminatorMappingPointer ::
  "env \<Rightarrow> world \<Rightarrow> string \<Rightarrow> nat \<Rightarrow> string \<Rightarrow> world \<times> string option" where
  "resolveDiscriminatorMappingPointer E w mappingValue schema schemaPointer =
     (if startsWith mappingValue ''#/components/schemas/'' then (w, Some mappingValue)
      else if \<not> looksLikeExternalFileReference mappingValue then (w, None)
      else
        let h = fst w; reg = fst (snd w); R = snd (snd w);
            withoutFragment =
              map (\<lambda>c. if c = CHR 0x5C then CHR ''/'' else c) (hd (splitOn (CHR ''#'') mappingValue));
            baseName = toLowerCase (basename E withoutFragment)
        in if baseName = [] then (w, None)
           else
             (case nonEmpty
                     (orElse (resolveMatchingSourcePath withoutFragment baseName R)
                        (resolveSourcePathFromSchemaContext E h R withoutFragment schema
                           schemaPointer)) of
                None \<Rightarrow>
                  if createSchemaNameFromSourcePath E withoutFragment
                       \<in> fst ` set (entries h (JRef (componentSchemas reg)))
                  then (w, Some (componentPointer
                                   (createSchemaNameFromSourcePath E withoutFragment)))
                  else (w, None)
              | Some sourcePath \<Rightarrow>
                  let loaded = ensureExternalSchemaForSourcePath E (h, R) sourcePath;
                      w1 = (fst (fst loaded), reg, snd (fst loaded))
                  in (case snd loaded of
                        None \<Rightarrow> (w1, None)
                      | Some externalSchema \<Rightarrow>
                          (fst (registerSourceComponent E w1 sourcePath externalSchema),
                           Some (snd (registerSourceComponent E w1 sourcePath externalSchema))))))"

section \<open>Discriminator mappings and source templates (helpers/rewritePasses.ts)\<close>

subsection \<open>\<^verbatim>\<open>rewriteDiscriminatorMappings\<close>\<close>

text \<open>
  An entry of \<^verbatim>\<open>mappingsToRewrite\<close>: the schema, its pointer, the mapping record, the key
  and the value.
\<close>

type_synonym rewrite = "nat \<times> string \<times> nat \<times> string \<times> string"

definition mappingVisitor :: "(rewrite list) visitor" where
  "mappingVisitor v pointer inSchemaContext parent st =
     (case st of (h, mappingsToRewrite) \<Rightarrow>
        if \<not> inSchemaContext \<or> \<not> isRecord h v \<or> \<not> isRecord h (getProp h v ''discriminator'')
        then st
        else
          let mapping = getProp h (getProp h v ''discriminator'') ''mapping''
          in if \<not> isRecord h mapping then st
             else (h, mappingsToRewrite
                      @ concat (map (\<lambda>e. case snd e of
                                            JStr mappingValue \<Rightarrow>
                                              if looksLikeExternalFileReference mappingValue
                                              then [(refOf v, pointer, refOf mapping, fst e,
                                                     mappingValue)]
                                              else []
                                          | _ \<Rightarrow> [])
                                  (entries h mapping))))"

definition applyMappingRewrite :: "env \<Rightarrow> world \<times> bool \<Rightarrow> rewrite \<Rightarrow> world \<times> bool" where
  "applyMappingRewrite E wc rw =
     (case rw of (schema, schemaPointer, mapping, mappingKey, mappingValue) \<Rightarrow>
        let resolved = resolveDiscriminatorMappingPointer E (fst wc) mappingValue schema schemaPointer;
            w1 = fst resolved
        in case nonEmpty (snd resolved) of
             None \<Rightarrow> (w1, snd wc)
           | Some pointerOfComponent \<Rightarrow>
               if getProp (fst w1) (JRef mapping) mappingKey \<noteq> JStr pointerOfComponent
               then ((setProp (fst w1) mapping mappingKey (JStr pointerOfComponent), snd w1), True)
               else (w1, snd wc))"

definition mappingTraversal :: "nat \<Rightarrow> env \<Rightarrow> jsval \<Rightarrow> world \<Rightarrow> (world \<times> bool) option" where
  "mappingTraversal depth E root w =
     (case walk depth mappingVisitor root False ''#'' None ({}, fst w, []) of
        None \<Rightarrow> None
      | Some (seen, h, mappingsToRewrite) \<Rightarrow>
          Some (foldl (applyMappingRewrite E) ((h, snd w), False) mappingsToRewrite))"

partial_function (option) rewriteDiscriminatorMappings ::
  "nat \<Rightarrow> env \<Rightarrow> jsval \<Rightarrow> world \<Rightarrow> world option" where
  "rewriteDiscriminatorMappings depth E root w =
     (case mappingTraversal depth E root w of
        None \<Rightarrow> None
      | Some (w', changed) \<Rightarrow>
          if changed then rewriteDiscriminatorMappings depth E root w' else Some w')"

declare rewriteDiscriminatorMappings.simps [code]

subsection \<open>\<^verbatim>\<open>rewriteFromSourceTemplate\<close>\<close>

definition elements :: "heap \<Rightarrow> jsval \<Rightarrow> jsval list" where
  "elements h v =
     (case v of
        JRef a \<Rightarrow> (case obj_at h a of Some (JArray xs) \<Rightarrow> xs | _ \<Rightarrow> [])
      | _ \<Rightarrow> [])"

text \<open>
  The branch of a source node that is a reference to a file: the replacement, when the
  file gets a component pointer.  What loading the file does to the resolver stays, also
  when there is no replacement.
\<close>

definition sourceRefReplacement ::
  "env \<Rightarrow> string \<Rightarrow> jsval \<Rightarrow> jsval \<Rightarrow> world \<Rightarrow> world \<times> jsval option" where
  "sourceRefReplacement E sourcePath sourceNode bundledNode w =
     (case getProp (fst w) sourceNode ''$ref'' of
        JStr ref \<Rightarrow>
          if \<not> looksLikeExternalFileReference ref then (w, None)
          else
            (case nonEmpty (resolveSourcePathFromSourceRef E sourcePath ref) of
               None \<Rightarrow> (w, None)
             | Some targetSourcePath \<Rightarrow>
                 let ensured = ensureComponentPointerForSourcePath E w targetSourcePath;
                     w1 = fst ensured
                 in (case nonEmpty (snd ensured) of
                       None \<Rightarrow> (w1, None)
                     | Some pointerOfComponent \<Rightarrow>
                         ((fst (alloc (fst w1)
                                  (JRecord (refReplacement (fst w1) bundledNode pointerOfComponent))),
                           snd w1),
                          Some (snd (alloc (fst w1)
                                  (JRecord (refReplacement (fst w1) bundledNode pointerOfComponent)))))))
      | _ \<Rightarrow> (w, None))"

text \<open>\<^verbatim>\<open>{ ...bundledNode }\<close>: the copy is the next object of the heap.\<close>

definition copyRecord :: "jsval \<Rightarrow> world \<Rightarrow> world" where
  "copyRecord v w = (fst w @ [JRecord (entries (fst w) v)], snd w)"

text \<open>
  \<^verbatim>\<open>rewriteFromSourceTemplate(sourceNode, bundledNode, sourcePath, ...)\<close> with its two
  loops.  \<open>next\<close> is the copy that is returned.  The loop over an array goes on while the
  index is in both arrays; nothing in it changes the length of an array.  The first
  argument bounds the depth of the recursion.
\<close>

function (sequential) rewriteFromSourceTemplate ::
      "nat \<Rightarrow> env \<Rightarrow> string \<Rightarrow> jsval \<Rightarrow> jsval \<Rightarrow> world \<Rightarrow> (world \<times> jsval) option"
  and rewriteItems ::
      "nat \<Rightarrow> env \<Rightarrow> string \<Rightarrow> jsval \<Rightarrow> nat \<Rightarrow> nat list \<Rightarrow> world \<Rightarrow> world option"
  and rewriteMembers ::
      "nat \<Rightarrow> env \<Rightarrow> string \<Rightarrow> (string \<times> jsval) list \<Rightarrow> nat \<Rightarrow> world \<Rightarrow> world option"
where
  "rewriteFromSourceTemplate 0 E sourcePath sourceNode bundledNode w = None"
| "rewriteFromSourceTemplate (Suc n) E sourcePath sourceNode bundledNode w =
     (if \<not> isRecord (fst w) sourceNode \<or> \<not> isRecord (fst w) bundledNode then
        (if isArray (fst w) sourceNode \<and> isArray (fst w) bundledNode then
           (case rewriteItems n E sourcePath sourceNode (length (fst w))
                   [0..<length (elements (fst w) sourceNode)]
                   (fst w @ [JArray (elements (fst w) bundledNode)], snd w) of
              None \<Rightarrow> None
            | Some w' \<Rightarrow> Some (w', JRef (length (fst w))))
         else Some (w, bundledNode))
      else
        (case sourceRefReplacement E sourcePath sourceNode bundledNode w of
           (w1, Some replacement) \<Rightarrow> Some (w1, replacement)
         | (w1, None) \<Rightarrow>
             (case rewriteMembers n E sourcePath (entries (fst w1) sourceNode) (length (fst w1))
                     (copyRecord bundledNode w1) of
                None \<Rightarrow> None
              | Some w' \<Rightarrow> Some (w', JRef (length (fst w1))))))"
| "rewriteItems n E sourcePath sourceNode next [] w = Some w"
| "rewriteItems n E sourcePath sourceNode next (i # rest) w =
     (if length (elements (fst w) sourceNode) \<le> i \<or> length (elements (fst w) (JRef next)) \<le> i
      then Some w
      else
        (case rewriteFromSourceTemplate n E sourcePath (elements (fst w) sourceNode ! i)
                (elements (fst w) (JRef next) ! i) w of
           None \<Rightarrow> None
         | Some (w', v) \<Rightarrow>
             rewriteItems n E sourcePath sourceNode next rest (setIndex (fst w') next i v, snd w')))"
| "rewriteMembers n E sourcePath [] next w = Some w"
| "rewriteMembers n E sourcePath (member # rest) next w =
     (if fst member \<notin> fst ` set (entries (fst w) (JRef next))
      then rewriteMembers n E sourcePath rest next w
      else
        (case rewriteFromSourceTemplate n E sourcePath (snd member)
                (getProp (fst w) (JRef next) (fst member)) w of
           None \<Rightarrow> None
         | Some (w', v) \<Rightarrow>
             rewriteMembers n E sourcePath rest next
               (setProp (fst w') next (fst member) v, snd w')))"
  by pat_completeness auto

termination
  by (relation "inv_image (less_than <*lex*> less_than)
        (\<lambda>x. case x of
               Inl (n, E, sourcePath, sourceNode, bundledNode, w) \<Rightarrow> (n, 0)
             | Inr (Inl (n, E, sourcePath, sourceNode, next, indices, w)) \<Rightarrow> (n, Suc (length indices))
             | Inr (Inr (n, E, sourcePath, members, next, w)) \<Rightarrow> (n, Suc (length members)))")
     auto

subsection \<open>\<^verbatim>\<open>rewriteSchemaRefsFromSourceTemplates\<close>\<close>

fun rewriteComponents :: "nat \<Rightarrow> env \<Rightarrow> (string \<times> string) list \<Rightarrow> world \<Rightarrow> world option" where
  "rewriteComponents depth E [] w = Some w"
| "rewriteComponents depth E (pair # rest) w =
     (let loaded = ensureExternalSchemaForSourcePath E (fst w, snd (snd w)) (snd pair);
          w1 = (fst (fst loaded), fst (snd w), snd (fst loaded));
          bundledSchema = getProp (fst w1) (JRef (componentSchemas (fst (snd w1)))) (fst pair)
      in case snd loaded of
           None \<Rightarrow> rewriteComponents depth E rest w1
         | Some sourceSchema \<Rightarrow>
             if \<not> isRecord (fst w1) (JRef sourceSchema) \<or> \<not> isRecord (fst w1) bundledSchema
             then rewriteComponents depth E rest w1
             else
               (case rewriteFromSourceTemplate depth E (snd pair) (JRef sourceSchema)
                       bundledSchema w1 of
                  None \<Rightarrow> None
                | Some (w2, rewritten) \<Rightarrow>
                    rewriteComponents depth E rest
                      (setProp (fst w2) (componentSchemas (fst (snd w2))) (fst pair) rewritten,
                       snd w2)))"

definition rewriteSchemaRefsFromSourceTemplates ::
  "nat \<Rightarrow> env \<Rightarrow> jsval \<Rightarrow> world \<Rightarrow> world option" where
  "rewriteSchemaRefsFromSourceTemplates depth E root w =
     (case rewriteComponents depth E (sourcePathByComponentName (snd (snd w))) w of
        None \<Rightarrow> None
      | Some w' \<Rightarrow>
          if isRecord (fst w') root \<and> isRecord (fst w') (getProp (fst w') root ''components'')
          then Some (setProp (fst w') (refOf (getProp (fst w') root ''components'')) ''schemas''
                       (JRef (componentSchemas (fst (snd w')))),
                     snd w')
          else Some w')"

section \<open>The normaliser (hoistBundledSchemas.ts)\<close>

text \<open>
  Step 1 of \<^verbatim>\<open>hoistBundledSchemas\<close>: the values of the loaded files other than the root
  file are given to the resolver; \<open>externalSchemas\<close> is the \<^verbatim>\<open>Map<object, string>\<close> from
  the value to its path.
\<close>

definition registerLoadedFile ::
  "env \<Rightarrow> heap \<Rightarrow> (string \<Rightarrow> jsval) \<Rightarrow> resolver \<times> (nat \<times> string) list \<Rightarrow> string
     \<Rightarrow> resolver \<times> (nat \<times> string) list" where
  "registerLoadedFile E h get st path =
     (if isRecord h (get path)
      then (registerExternalSourcePath E h
              (addExternalNameCandidate h (fst st) (refOf (get path))
                 (createSchemaNameFromSourcePath E path))
              path (refOf (get path)),
            assign (snd st) (refOf (get path)) path)
      else st)"

definition hoistTarget :: "env \<Rightarrow> world \<Rightarrow> string \<times> nat \<Rightarrow> world" where
  "hoistTarget E w target =
     (let registration =
            registerSchemaInComponents (fst w, fst (snd w)) (snd target)
              (createSchemaNameFromSourcePath E (fst target));
          componentName = decodeJsonPointerToken (lastToken (snd registration));
          R = snd (snd w)
      in (fst (fst registration), snd (fst registration),
          R \<lparr> componentNameBySourcePath :=
                 assign (componentNameBySourcePath R) (fst target) componentName,
               sourcePathByComponentName :=
                 assign (sourcePathByComponentName R) componentName (fst target) \<rparr>))"

definition registerLoadedFiles ::
  "nat \<Rightarrow> env \<Rightarrow> jsval \<Rightarrow> string list \<Rightarrow> (string \<Rightarrow> jsval) \<Rightarrow> heap \<times> registry \<Rightarrow> world option" where
  "registerLoadedFiles depth E schema resolvedPaths get hr =
     (if resolvedPaths = [] then Some (fst hr, snd hr, createExternalSchemaNameResolver)
      else
        let loaded = foldl (registerLoadedFile E (fst hr) get)
                       (createExternalSchemaNameResolver, [])
                       (filter (\<lambda>path. path \<noteq> hd resolvedPaths) resolvedPaths)
        in case collectSchemaTargets depth (fst hr) schema (snd loaded) of
             None \<Rightarrow> None
           | Some targets \<Rightarrow> Some (foldl (hoistTarget E) (fst hr, snd hr, fst loaded) targets))"

text \<open>Steps 2 to 3: the passes, in their order.\<close>

definition mappingsAndTemplates :: "nat \<Rightarrow> env \<Rightarrow> jsval \<Rightarrow> world \<Rightarrow> world option" where
  "mappingsAndTemplates depth E schema w =
     (case rewriteDiscriminatorMappings depth E schema w of
        None \<Rightarrow> None
      | Some w1 \<Rightarrow> rewriteSchemaRefsFromSourceTemplates depth E schema w1)"

definition rewritePasses :: "nat \<Rightarrow> env \<Rightarrow> jsval \<Rightarrow> world \<Rightarrow> heap option" where
  "rewritePasses depth E schema w =
     (case rewriteLocalSchemaRefsToComponents depth E schema (snd (snd w)) (fst w, fst (snd w)) of
        None \<Rightarrow> None
      | Some hr1 \<Rightarrow>
          (case rewriteInlineExternalSchemasToComponentRefs depth schema (snd (snd w)) hr1 of
             None \<Rightarrow> None
           | Some hr2 \<Rightarrow>
               (case mappingsAndTemplates depth E schema (fst hr2, snd hr2, snd (snd w)) of
                  None \<Rightarrow> None
                | Some w3 \<Rightarrow>
                    (case mappingsAndTemplates depth E schema w3 of
                       None \<Rightarrow> None
                     | Some w4 \<Rightarrow>
                         replaceHoistedObjectsWithRefs depth schema (fst (snd w4)) (fst w4)))))"

text \<open>
  \<^verbatim>\<open>hoistBundledSchemas(parser, parserOptions)\<close>.  The parser is the heap with the document
  \<^verbatim>\<open>parser.schema\<close> in it and \<^verbatim>\<open>parser.$refs\<close>, which is absent or gives the loaded
  paths and the value loaded from each.  The function returns nothing; its result is the
  heap it leaves.  \<open>None\<close> stands for a run that does not return: it throws, a loop does
  not end, or the depth bound is reached.
\<close>

definition hoistBundledSchemas ::
  "nat \<Rightarrow> env \<Rightarrow> heap \<Rightarrow> jsval \<Rightarrow> (string list \<times> (string \<Rightarrow> jsval)) option \<Rightarrow> heap option" where
  "hoistBundledSchemas depth E h schema refs =
     (if \<not> isOpenAPI E h schema \<or> refs = None then Some h
      else
        (case createSchemaRegistry h schema of
           None \<Rightarrow> None
         | Some hr \<Rightarrow>
             (case registerLoadedFiles depth E schema (fst (the refs)) (snd (the refs)) hr of
                None \<Rightarrow> None
              | Some w \<Rightarrow> rewritePasses depth E schema w)))"

section \<open>Notions used to state the properties\<close>

text \<open>The base name of \<^verbatim>\<open>createUniqueSchemaName\<close>: \<^verbatim>\<open>baseName || 'Schema'\<close>.\<close>

definition safeName :: "string \<Rightarrow> string" where
  "safeName baseName = (if baseName = [] then ''Schema'' else baseName)"

text \<open>The encoding of one character of a token.\<close>

definition escapeChar :: "char \<Rightarrow> string" where
  "escapeChar c = (if c = CHR ''~'' then ''~0'' else if c = CHR ''/'' then ''~1'' else [c])"

text \<open>The keys of every record are distinct, as they are in JavaScript.\<close>

definition wf_heap :: "heap \<Rightarrow> bool" where
  "wf_heap h = list_all (\<lambda>ob. case ob of JRecord es \<Rightarrow> distinct (map fst es) | JArray xs \<Rightarrow> True) h"

text \<open>
  The record \<open>s\<close> is \<^verbatim>\<open>root.components.schemas\<close> of the document; a step from \<open>h\<close> to
  \<open>h'\<close> keeps every property that holds an object; an object has a pointer in the
  registry.
\<close>

definition located :: "heap \<Rightarrow> jsval \<Rightarrow> nat \<Rightarrow> bool" where
  "located h root s =
     (\<exists>r c er ec es. root = JRef r \<and> obj_at h r = Some (JRecord er)
        \<and> lookup er ''components'' = JRef c \<and> obj_at h c = Some (JRecord ec)
        \<and> lookup ec ''schemas'' = JRef s \<and> obj_at h s = Some (JRecord es))"

definition keeps :: "heap \<Rightarrow> heap \<Rightarrow> bool" where
  "keeps h h' = (\<forall>x ex k y. obj_at h x = Some (JRecord ex) \<and> lookup ex k = JRef y
                   \<longrightarrow> (\<exists>ex'. obj_at h' x = Some (JRecord ex') \<and> lookup ex' k = JRef y))"




subsection \<open>Schemas as trees\<close>

text \<open>
  What a schema is up to the identity of its objects: the tree obtained by unfolding the
  object graph from the schema, where a reference to an object that is one of its own
  ancestors (a back-edge of a reference cycle) is a leaf \<open>TBack\<close>.  An object that is
  reached twice without being its own ancestor is unfolded twice, so sharing an object and
  holding two copies of it give the same tree.  The set \<open>anc\<close> holds the ancestors.
\<close>

datatype tree =
    TLeaf jsval
  | TBack
  | TArr "tree list"
  | TRec "(string \<times> tree) list"

inductive unfolds :: "heap \<Rightarrow> nat set \<Rightarrow> jsval \<Rightarrow> tree \<Rightarrow> bool" for h where
  u_leaf: "\<not> isObject h v \<Longrightarrow> unfolds h anc v (TLeaf v)"
| u_back: "a < length h \<Longrightarrow> a \<in> anc \<Longrightarrow> unfolds h anc (JRef a) TBack"
| u_arr: "obj_at h a = Some (JArray items) \<Longrightarrow> a \<notin> anc \<Longrightarrow>
        list_all2 (unfolds h (insert a anc)) items ts \<Longrightarrow>
        unfolds h anc (JRef a) (TArr ts)"
| u_rec: "obj_at h a = Some (JRecord es) \<Longrightarrow> a \<notin> anc \<Longrightarrow>
        list_all2 (\<lambda>e t. fst t = fst e \<and> unfolds h (insert a anc) (snd e) (snd t)) es ts \<Longrightarrow>
        unfolds h anc (JRef a) (TRec ts)"

text \<open>
  The fingerprint's normal form of a tree: the root's \<^verbatim>\<open>description\<close> and
  \<^verbatim>\<open>summary\<close> dropped, the members of every record sorted by key and put into a new
  object, a back-edge replaced by the sentinel.
\<close>

fun normTree :: "bool \<Rightarrow> tree \<Rightarrow> json"
  and normTrees :: "tree list \<Rightarrow> json list"
  and normMembers :: "(string \<times> tree) list \<Rightarrow> (string \<times> json) list"
where
  "normTree isRoot (TLeaf v) = primitive v"
| "normTree isRoot TBack = NStr ''[Circular]''"
| "normTree isRoot (TArr ts) = NArr (normTrees ts)"
| "normTree isRoot (TRec ms) =
     NRec (objectOf (sortByKey (filter (\<lambda>e. \<not> rootDocKey isRoot (fst e)) (normMembers ms))))"
| "normTrees [] = []"
| "normTrees (t # ts) = normTree False t # normTrees ts"
| "normMembers [] = []"
| "normMembers ((k, t) # ms) = (k, normTree False t) # normMembers ms"

section \<open>Documents of the worked examples\<close>



text \<open>
  Two separate objects \<^verbatim>\<open>{ type: 'object' }\<close>, and the resolver after
  \<^verbatim>\<open>addExternalNameCandidate(resolver, first, '')\<close> and
  \<^verbatim>\<open>addExternalNameCandidate(resolver, second, 'B')\<close>.
\<close>

definition twinObjects :: heap where
  "twinObjects = [JRecord [(''type'', JStr ''object'')], JRecord [(''type'', JStr ''object'')]]"

definition twinResolver :: resolver where
  "twinResolver =
     addExternalNameCandidate twinObjects
       (addExternalNameCandidate twinObjects createExternalSchemaNameResolver 0 []) 1 ''B''"

text \<open>The resolver after \<^verbatim>\<open>addExternalNameCandidate(resolver, first, 'User')\<close> alone.\<close>

definition userResolver :: resolver where
  "userResolver = addExternalNameCandidate twinObjects createExternalSchemaNameResolver 0 ''User''"

text \<open>
  A schema \<^verbatim>\<open>{ a: leaf, b: leaf }\<close> whose two properties hold one and the same object
  \<^verbatim>\<open>{ type: 'string' }\<close>, the schema in which they hold two separate copies of it, the
  tree of both, and a schema \<^verbatim>\<open>s\<close> with \<^verbatim>\<open>s.self = s\<close>.
\<close>

definition sharedDoc :: heap where
  "sharedDoc =
     [JRecord [(''a'', JRef 1), (''b'', JRef 1)],
      JRecord [(''type'', JStr ''string'')]]"

definition copiedDoc :: heap where
  "copiedDoc =
     [JRecord [(''a'', JRef 1), (''b'', JRef 2)],
      JRecord [(''type'', JStr ''string'')],
      JRecord [(''type'', JStr ''string'')]]"

definition sharedTree :: tree where
  "sharedTree =
     TRec [(''a'', TRec [(''type'', TLeaf (JStr ''string''))]),
           (''b'', TRec [(''type'', TLeaf (JStr ''string''))])]"

definition selfDoc :: heap where
  "selfDoc = [JRecord [(''self'', JRef 0)]]"

text \<open>
  The documents of the driver's tests: an OpenAPI document without \<^verbatim>\<open>components\<close>, and a
  Swagger document.
\<close>

definition emptyDoc :: heap where
  "emptyDoc =
     [JRecord [(''openapi'', JStr ''3.0.3''), (''info'', JRef 1), (''paths'', JRef 2)],
      JRecord [(''title'', JStr ''OpenAPI''), (''version'', JStr ''1.0.0'')],
      JRecord []]"

definition swaggerDoc :: heap where
  "swaggerDoc =
     [JRecord [(''swagger'', JStr ''2.0''), (''info'', JRef 1), (''paths'', JRef 2)],
      JRecord [(''title'', JStr ''Swagger''), (''version'', JStr ''1.0.0'')],
      JRecord []]"

chapter \<open>Properties\<close>

section \<open>JSON-pointer tokens: decoding after encoding\<close>

lemma replaceAll_single:
  "replaceAll [p] rep s = concat (map (\<lambda>x. if x = p then rep else [x]) s)"
  by (induction s) auto

lemma replaceAll_pair_hit:
  "replaceAll [a, b] rep (a # b # s) = rep @ replaceAll [a, b] rep s"
  by simp

lemma replaceAll_pair_miss:
  "x \<noteq> a \<Longrightarrow> replaceAll [a, b] rep (x # s) = x # replaceAll [a, b] rep s"
  by (cases s) auto

lemma replaceAll_pair_miss2:
  "y \<noteq> b \<Longrightarrow> replaceAll [a, b] rep (x # y # s) = x # replaceAll [a, b] rep (y # s)"
  by simp

lemma encode_as_concat:
  "encodeJsonPointerToken t = concat (map escapeChar t)"
  unfolding encodeJsonPointerToken_def replaceAll_single
  by (induction t) (auto simp: escapeChar_def)

lemma unescape_escape:
  "replaceAll ''~0'' ''~'' (replaceAll ''~1'' ''/'' (concat (map escapeChar t))) = t"
proof (induction t)
  case Nil
  show ?case by simp
next
  case (Cons c t)
  show ?case
  proof (cases "c = CHR ''~''")
    case True
    have "escapeChar c = ''~0''" using True by (simp add: escapeChar_def)
    then show ?thesis using Cons True
      by (simp add: replaceAll_pair_miss replaceAll_pair_miss2 replaceAll_pair_hit
               del: replaceAll.simps)
  next
    case False
    show ?thesis
    proof (cases "c = CHR ''/''")
      case True
      have "escapeChar c = ''~1''" using True by (simp add: escapeChar_def)
      then show ?thesis using Cons True
        by (simp add: replaceAll_pair_miss replaceAll_pair_hit del: replaceAll.simps)
    next
      case slash: False
      have "escapeChar c = [c]" using False slash by (simp add: escapeChar_def)
      then show ?thesis using Cons False
        by (simp add: replaceAll_pair_miss del: replaceAll.simps)
    qed
  qed
qed

lemma decodeURIComponent_no_percent:
  "CHR ''%'' \<notin> set s \<Longrightarrow> decodeURIComponent s = Some s"
  by (induction s) auto

lemma encode_no_percent:
  "CHR ''%'' \<notin> set t \<Longrightarrow> CHR ''%'' \<notin> set (encodeJsonPointerToken t)"
  unfolding encode_as_concat by (induction t) (auto simp: escapeChar_def)

lemma decode_encode_fallback:
  assumes "decodeURIComponent (encodeJsonPointerToken t) = None
           \<or> decodeURIComponent (encodeJsonPointerToken t) = Some (encodeJsonPointerToken t)"
  shows "decodeJsonPointerToken (encodeJsonPointerToken t) = t"
  using assms unescape_escape [of t]
  by (auto simp: decodeJsonPointerToken_def encode_as_concat)

lemma decode_encode_no_percent:
  "CHR ''%'' \<notin> set t \<Longrightarrow> decodeJsonPointerToken (encodeJsonPointerToken t) = t"
  by (rule decode_encode_fallback) (simp add: decodeURIComponent_no_percent encode_no_percent)

text \<open>
  Claim C9, as amended.  The claim says that decoding reverses encoding for every token.
  Decoding URI-decodes first, and the token \<^verbatim>\<open>%41\<close> is not given back: it encodes to
  itself and decodes to \<^verbatim>\<open>A\<close>.  What holds: decoding an encoded token gives the token
  back whenever URI-decoding of the encoded token fails (the fallback to the raw token)
  or leaves it as it is, and that is the case for every token without a percent sign.
\<close>

theorem decode_encode_token:
  "(decodeURIComponent (encodeJsonPointerToken t) = None
      \<longrightarrow> decodeJsonPointerToken (encodeJsonPointerToken t) = t)
   \<and> (decodeURIComponent (encodeJsonPointerToken t) = Some (encodeJsonPointerToken t)
      \<longrightarrow> decodeJsonPointerToken (encodeJsonPointerToken t) = t)
   \<and> (CHR ''%'' \<notin> set t \<longrightarrow> decodeJsonPointerToken (encodeJsonPointerToken t) = t)"
  using decode_encode_fallback [of t] decode_encode_no_percent [of t] by blast

theorem decode_encode_token_witness:
  "decodeURIComponent (encodeJsonPointerToken ''%E0%A4%A/foo'') = None
   \<and> decodeJsonPointerToken (encodeJsonPointerToken ''%E0%A4%A/foo'') = ''%E0%A4%A/foo''
   \<and> decodeURIComponent (encodeJsonPointerToken ''a/b~c'') = Some (encodeJsonPointerToken ''a/b~c'')
   \<and> CHR ''%'' \<notin> set ''a/b~c''
   \<and> decodeJsonPointerToken (encodeJsonPointerToken ''a/b~c'') = ''a/b~c''"
proof -
  have enc1: "encodeJsonPointerToken ''%E0%A4%A/foo'' = ''%E0%A4%A~1foo''"
    by (simp add: encodeJsonPointerToken_def)
  have fail: "decodeURIComponent (encodeJsonPointerToken ''%E0%A4%A/foo'') = None"
    unfolding enc1 by code_simp
  have enc2: "encodeJsonPointerToken ''a/b~c'' = ''a~1b~0c''"
    by (simp add: encodeJsonPointerToken_def)
  have same: "decodeURIComponent (encodeJsonPointerToken ''a/b~c'')
              = Some (encodeJsonPointerToken ''a/b~c'')"
    unfolding enc2 by simp
  have nop: "CHR ''%'' \<notin> set ''a/b~c''" by simp
  show ?thesis
    using fail same nop
      decode_encode_token [of "''%E0%A4%A/foo''"] decode_encode_token [of "''a/b~c''"]
    by blast
qed

theorem decode_encode_token_counterexample:
  "decodeJsonPointerToken (encodeJsonPointerToken ''%41'') = ''A'' \<and> ''A'' \<noteq> ''%41''"
  by code_simp

section \<open>Unique component names\<close>

lemma uniqueNameLoop_free:
  "\<not> set_has names u \<Longrightarrow> uniqueNameLoop b names u i = u"
  by (subst uniqueNameLoop.simps) simp

lemma uniqueNameLoop_taken:
  "set_has names u \<Longrightarrow>
     \<exists>k\<ge>i. uniqueNameLoop b names u i = suffixed b k \<and> suffixed b k \<notin> set names
            \<and> (\<forall>j. i \<le> j \<and> j < k \<longrightarrow> suffixed b j \<in> set names)"
proof (induction b names u i rule: uniqueNameLoop.induct)
  case (1 b names u i)
  have step: "uniqueNameLoop b names u i = uniqueNameLoop b names (suffixed b i) (i + 1)"
    using "1.prems" by (subst uniqueNameLoop.simps) simp
  show ?case
  proof (cases "set_has names (suffixed b i)")
    case False
    then have "uniqueNameLoop b names u i = suffixed b i"
      using step by (simp add: uniqueNameLoop_free)
    then show ?thesis using False by (auto simp: set_has_def intro!: exI [of _ i])
  next
    case True
    from "1.IH" [OF "1.prems" True] obtain k where k:
      "i + 1 \<le> k" "uniqueNameLoop b names (suffixed b i) (i + 1) = suffixed b k"
      "suffixed b k \<notin> set names" "\<forall>j. i + 1 \<le> j \<and> j < k \<longrightarrow> suffixed b j \<in> set names"
      by blast
    have "\<forall>j. i \<le> j \<and> j < k \<longrightarrow> suffixed b j \<in> set names"
    proof (intro allI impI)
      fix j assume j: "i \<le> j \<and> j < k"
      show "suffixed b j \<in> set names"
      proof (cases "j = i")
        case True
        then show ?thesis using \<open>set_has names (suffixed b i)\<close> by (simp add: set_has_def)
      next
        case False
        then show ?thesis using j k(4) by simp
      qed
    qed
    then show ?thesis using k step by (auto intro!: exI [of _ k])
  qed
qed

lemma suffixed_neq_base: "suffixed b k \<noteq> b"
  by (simp add: suffixed_def)

lemma createUniqueSchemaName_free:
  "safeName b \<notin> set names \<Longrightarrow>
     createUniqueSchemaName b names = (safeName b, names @ [safeName b])"
  by (simp add: createUniqueSchemaName_def safeName_def Let_def uniqueNameLoop_free
        set_has_def set_add_def)

lemma createUniqueSchemaName_taken:
  assumes "safeName b \<in> set names"
  shows "\<exists>k\<ge>2. createUniqueSchemaName b names
                  = (suffixed (safeName b) k, names @ [suffixed (safeName b) k])
              \<and> suffixed (safeName b) k \<notin> set names
              \<and> (\<forall>j. 2 \<le> j \<and> j < k \<longrightarrow> suffixed (safeName b) j \<in> set names)"
proof -
  have "set_has names (safeName b)" using assms by (simp add: set_has_def)
  from uniqueNameLoop_taken [OF this, of 2 "safeName b"] obtain k where k:
    "2 \<le> k" "uniqueNameLoop (safeName b) names (safeName b) 2 = suffixed (safeName b) k"
    "suffixed (safeName b) k \<notin> set names"
    "\<forall>j. 2 \<le> j \<and> j < k \<longrightarrow> suffixed (safeName b) j \<in> set names"
    by blast
  have "createUniqueSchemaName b names
          = (suffixed (safeName b) k, names @ [suffixed (safeName b) k])"
    using k(2,3) by (simp add: createUniqueSchemaName_def safeName_def Let_def set_add_def)
  then show ?thesis using k by blast
qed

text \<open>
  Claim C8, as amended.  The claim takes the preferred name \<open>b\<close> itself as the base; the
  code takes \<^verbatim>\<open>baseName || 'Schema'\<close>, so the empty name is replaced by \<^verbatim>\<open>Schema\<close>
  (\<open>safeName\<close> below).  With that base: the result is the base when it is free, otherwise
  the base with the suffix \<open>_k\<close> for the least \<open>k \<ge> 2\<close> that is free; the result was not a
  member of the set and is its one new member.  Two requests for the same free base get
  the base and then the least free suffixed name, which is \<open>_2\<close> only when that name is
  free.
\<close>

theorem createUniqueSchemaName_spec:
  "(safeName b \<notin> set names \<longrightarrow> fst (createUniqueSchemaName b names) = safeName b)
   \<and> (safeName b \<in> set names \<longrightarrow>
        (\<exists>k\<ge>2. fst (createUniqueSchemaName b names) = suffixed (safeName b) k
               \<and> suffixed (safeName b) k \<notin> set names
               \<and> (\<forall>j. 2 \<le> j \<and> j < k \<longrightarrow> suffixed (safeName b) j \<in> set names)))
   \<and> fst (createUniqueSchemaName b names) \<notin> set names
   \<and> snd (createUniqueSchemaName b names) = names @ [fst (createUniqueSchemaName b names)]
   \<and> (safeName b \<notin> set names \<longrightarrow>
        (\<exists>k\<ge>2. fst (createUniqueSchemaName b (snd (createUniqueSchemaName b names)))
                  = suffixed (safeName b) k
               \<and> suffixed (safeName b) k \<notin> set names
               \<and> (\<forall>j. 2 \<le> j \<and> j < k \<longrightarrow> suffixed (safeName b) j \<in> set names)))
   \<and> (safeName b \<notin> set names \<and> suffixed (safeName b) 2 \<notin> set names \<longrightarrow>
        fst (createUniqueSchemaName b (snd (createUniqueSchemaName b names)))
          = suffixed (safeName b) 2)"
proof -
  have second: "\<exists>k\<ge>2. fst (createUniqueSchemaName b (snd (createUniqueSchemaName b names)))
                  = suffixed (safeName b) k
               \<and> suffixed (safeName b) k \<notin> set names
               \<and> (\<forall>j. 2 \<le> j \<and> j < k \<longrightarrow> suffixed (safeName b) j \<in> set names)"
    if free: "safeName b \<notin> set names"
  proof -
    let ?names' = "names @ [safeName b]"
    have first: "createUniqueSchemaName b names = (safeName b, ?names')"
      using free by (rule createUniqueSchemaName_free)
    have "safeName b \<in> set ?names'" by simp
    from createUniqueSchemaName_taken [OF this] obtain k where k:
      "2 \<le> k" "createUniqueSchemaName b ?names'
                 = (suffixed (safeName b) k, ?names' @ [suffixed (safeName b) k])"
      "suffixed (safeName b) k \<notin> set ?names'"
      "\<forall>j. 2 \<le> j \<and> j < k \<longrightarrow> suffixed (safeName b) j \<in> set ?names'"
      by blast
    have "\<forall>j. 2 \<le> j \<and> j < k \<longrightarrow> suffixed (safeName b) j \<in> set names"
      using k(4) suffixed_neq_base by auto
    then show ?thesis using k first by (auto intro!: exI [of _ k])
  qed
  have two: "fst (createUniqueSchemaName b (snd (createUniqueSchemaName b names)))
               = suffixed (safeName b) 2"
    if free: "safeName b \<notin> set names" and free2: "suffixed (safeName b) 2 \<notin> set names"
  proof -
    from second [OF free] obtain k where k: "2 \<le> k"
      "fst (createUniqueSchemaName b (snd (createUniqueSchemaName b names)))
         = suffixed (safeName b) k"
      "\<forall>j. 2 \<le> j \<and> j < k \<longrightarrow> suffixed (safeName b) j \<in> set names"
      by blast
    have "k = 2"
    proof (rule ccontr)
      assume "k \<noteq> 2"
      then have "2 < k" using k(1) by simp
      then show False using k(3) free2 by auto
    qed
    then show ?thesis using k(2) by simp
  qed
  show ?thesis
  proof (cases "safeName b \<in> set names")
    case True
    from createUniqueSchemaName_taken [OF True] show ?thesis using True by auto
  next
    case False
    from createUniqueSchemaName_free [OF False] second [OF False] two [OF False]
    show ?thesis using False by auto
  qed
qed

theorem createUniqueSchemaName_spec_witness:
  "safeName ''Pet'' \<in> set [''Pet'', ''Pet_2'']
   \<and> fst (createUniqueSchemaName ''Pet'' [''Pet'', ''Pet_2'']) = ''Pet_3''
   \<and> suffixed (safeName ''Pet'') 2 \<in> set [''Pet'', ''Pet_2'']
   \<and> safeName ''Id'' \<notin> set [''Pet''] \<and> suffixed (safeName ''Id'') 2 \<notin> set [''Pet'']
   \<and> fst (createUniqueSchemaName ''Id'' [''Pet'']) = ''Id''
   \<and> fst (createUniqueSchemaName ''Id'' (snd (createUniqueSchemaName ''Id'' [''Pet''])))
       = suffixed (safeName ''Id'') 2
   \<and> suffixed (safeName ''Id'') 2 = ''Id_2''"
proof -
  have s2: "String_of_nat 2 = ''2''" by code_simp
  have a: "safeName ''Pet'' \<in> set [''Pet'', ''Pet_2'']" by (simp add: safeName_def)
  have b: "suffixed (safeName ''Pet'') 2 \<in> set [''Pet'', ''Pet_2'']"
    by (simp add: safeName_def suffixed_def s2)
  have c: "fst (createUniqueSchemaName ''Pet'' [''Pet'', ''Pet_2'']) = ''Pet_3''" by code_simp
  have d: "safeName ''Id'' \<notin> set [''Pet'']" by (simp add: safeName_def)
  have e: "suffixed (safeName ''Id'') 2 \<notin> set [''Pet'']"
    by (simp add: safeName_def suffixed_def s2)
  have f: "suffixed (safeName ''Id'') 2 = ''Id_2''" by (simp add: safeName_def suffixed_def s2)
  have n: "safeName ''Id'' = ''Id''" by (simp add: safeName_def)
  note spec = createUniqueSchemaName_spec [of "''Id''" "[''Pet'']"]
  have g: "fst (createUniqueSchemaName ''Id'' [''Pet'']) = safeName ''Id''"
    using spec d by blast
  have h: "fst (createUniqueSchemaName ''Id'' (snd (createUniqueSchemaName ''Id'' [''Pet''])))
             = suffixed (safeName ''Id'') 2"
    using spec d e by blast
  show ?thesis
    using a b c d e f g h unfolding n by blast
qed

theorem createUniqueSchemaName_counterexample:
  "[] \<notin> set ([] :: string list)
   \<and> fst (createUniqueSchemaName [] []) = ''Schema''
   \<and> ''Pet'' \<notin> set [''Pet_2'']
   \<and> fst (createUniqueSchemaName ''Pet'' [''Pet_2'']) = ''Pet''
   \<and> fst (createUniqueSchemaName ''Pet'' (snd (createUniqueSchemaName ''Pet'' [''Pet_2''])))
       = ''Pet_3''"
  by code_simp

section \<open>The fingerprint traversal\<close>

lemma normalize_seen:
  "normalizeForFingerprint n h v isRoot seen = Some (x, seen') \<Longrightarrow> seen' = seen"
  "normalizeItems n h items seen = Some (xs, seen') \<Longrightarrow> seen' = seen"
  "normalizeFields n h members seen = Some (ys, seen') \<Longrightarrow> seen' = seen"
proof (induction n h v isRoot seen and n h items seen and n h members seen
       arbitrary: x seen' and xs seen' and ys seen'
       rule: normalizeForFingerprint_normalizeItems_normalizeFields.induct)
  case (1 h v isRoot seen)
  then show ?case by simp
next
  case (2 n h v isRoot seen)
  show ?case
  proof (cases v)
    case (JRef a)
    show ?thesis
    proof (cases "obj_at h a")
      case None
      then show ?thesis using "2.prems" JRef by simp
    next
      case (Some ob)
      show ?thesis
      proof (cases "a \<in> seen")
        case True
        then show ?thesis using "2.prems" JRef Some by simp
      next
        case False
        show ?thesis
        proof (cases ob)
          case (JArray items)
          from "2.prems" JRef Some False JArray obtain r s where
            r: "normalizeItems n h items (insert a seen) = Some (r, s)" and s: "seen' = s - {a}"
            by (auto split: option.splits)
          from "2.IH"(2) [OF JRef Some False JArray r] have "s = insert a seen" .
          then show ?thesis using s False by simp
        next
          case (JRecord es)
          from "2.prems" JRef Some False JRecord obtain r s where
            r: "normalizeFields n h (sortByKey (filter (\<lambda>e. \<not> rootDocKey isRoot (fst e)) es))
                  (insert a seen) = Some (r, s)" and s: "seen' = s - {a}"
            by (auto split: option.splits)
          from "2.IH"(1) [OF JRef Some False JRecord r] have "s = insert a seen" .
          then show ?thesis using s False by simp
        qed
      qed
    qed
  qed (use "2.prems" in auto)
next
  case (3 n h seen)
  then show ?case by simp
next
  case (4 n h entry rest seen)
  from "4.prems" obtain y s1 ys' where
    a: "normalizeForFingerprint n h entry False seen = Some (y, s1)" and
    b: "normalizeItems n h rest s1 = Some (ys', seen')"
    by (auto split: option.splits)
  from "4.IH"(1) [OF a] have s1: "s1 = seen" .
  from "4.IH"(2) [OF a refl b] show ?case using s1 by simp
next
  case (5 n h seen)
  then show ?case by simp
next
  case (6 n h key entry rest seen)
  from "6.prems" obtain y s1 ys' where
    a: "normalizeForFingerprint n h entry False seen = Some (y, s1)" and
    b: "normalizeFields n h rest s1 = Some (ys', seen')"
    by (auto split: option.splits)
  from "6.IH"(1) [OF a] have s1: "s1 = seen" .
  from "6.IH"(2) [OF a refl b] show ?case using s1 by simp
qed

lemma unseen_card:
  assumes "a < length h" "a \<notin> seen" "card ({..<length h} - seen) < Suc n"
  shows "card ({..<length h} - insert a seen) < n"
proof -
  have "a \<in> {..<length h} - seen" using assms by simp
  moreover have "{..<length h} - insert a seen = ({..<length h} - seen) - {a}" by auto
  ultimately have "card ({..<length h} - insert a seen) = card ({..<length h} - seen) - 1"
    by simp
  moreover have "0 < card ({..<length h} - seen)"
    using \<open>a \<in> {..<length h} - seen\<close> by (metis card_gt_0_iff empty_iff finite_Diff finite_lessThan)
  ultimately show ?thesis using assms(3) by linarith
qed

lemma normalize_total_aux:
  "card ({..<length h} - seen) < n \<Longrightarrow>
     \<exists>x. normalizeForFingerprint n h v isRoot seen = Some (x, seen)"
  "card ({..<length h} - seen) < n \<Longrightarrow>
     \<exists>xs. normalizeItems n h items seen = Some (xs, seen)"
  "card ({..<length h} - seen) < n \<Longrightarrow>
     \<exists>ys. normalizeFields n h members seen = Some (ys, seen)"
proof (induction n h v isRoot seen and n h items seen and n h members seen
       rule: normalizeForFingerprint_normalizeItems_normalizeFields.induct)
  case (1 h v isRoot seen)
  then show ?case by simp
next
  case (2 n h v isRoot seen)
  show ?case
  proof (cases v)
    case (JRef a)
    show ?thesis
    proof (cases "obj_at h a")
      case None
      then show ?thesis using JRef by simp
    next
      case (Some ob)
      then have a: "a < length h" by (simp add: obj_at_def split: if_splits)
      show ?thesis
      proof (cases "a \<in> seen")
        case True
        then show ?thesis using JRef Some by simp
      next
        case False
        have c: "card ({..<length h} - insert a seen) < n"
          using unseen_card [OF a False "2.prems"] .
        show ?thesis
        proof (cases ob)
          case (JArray items)
          from "2.IH"(2) [OF JRef Some False JArray c] show ?thesis
            using JRef Some False JArray by auto
        next
          case (JRecord es)
          from "2.IH"(1) [OF JRef Some False JRecord c] show ?thesis
            using JRef Some False JRecord by auto
        qed
      qed
    qed
  qed auto
next
  case (3 n h seen)
  then show ?case by simp
next
  case (4 n h entry rest seen)
  from "4.IH"(1) [OF "4.prems"] obtain y where
    y: "normalizeForFingerprint n h entry False seen = Some (y, seen)" by blast
  from "4.IH"(2) [OF y refl "4.prems"] show ?case using y by auto
next
  case (5 n h seen)
  then show ?case by simp
next
  case (6 n h key entry rest seen)
  from "6.IH"(1) [OF "6.prems"] obtain y where
    y: "normalizeForFingerprint n h entry False seen = Some (y, seen)" by blast
  from "6.IH"(2) [OF y refl "6.prems"] show ?case using y by auto
qed

lemma normalize_total:
  "\<exists>x. normalizeForFingerprint (length h + 1) h v isRoot {} = Some (x, {})"
  by (rule normalize_total_aux(1)) simp

lemma normalizeItems_intro:
  "list_all2 (\<lambda>v x. normalizeForFingerprint n h v False seen = Some (x, seen)) items xs
     \<Longrightarrow> normalizeItems n h items seen = Some (xs, seen)"
  by (induction items xs rule: list_all2_induct) simp_all

lemma normalizeItems_elim:
  "normalizeItems n h items seen = Some (xs, seen') \<Longrightarrow>
     seen' = seen \<and>
     list_all2 (\<lambda>v x. normalizeForFingerprint n h v False seen = Some (x, seen)) items xs"
proof (induction items arbitrary: xs)
  case Nil
  then show ?case by simp
next
  case (Cons v items)
  from Cons.prems obtain y s1 ys where
    a: "normalizeForFingerprint n h v False seen = Some (y, s1)" and
    b: "normalizeItems n h items s1 = Some (ys, seen')" and c: "xs = y # ys"
    by (auto split: option.splits)
  have s1: "s1 = seen" using a by (rule normalize_seen(1))
  from Cons.IH [of ys] b s1 have "seen' = seen"
    "list_all2 (\<lambda>v x. normalizeForFingerprint n h v False seen = Some (x, seen)) items ys"
    by simp_all
  then show ?case using a s1 c by simp
qed

lemma normalizeFields_intro:
  "list_all2 (\<lambda>e y. fst y = fst e \<and>
       normalizeForFingerprint n h (snd e) False seen = Some (snd y, seen)) members ys
     \<Longrightarrow> normalizeFields n h members seen = Some (ys, seen)"
proof (induction members ys rule: list_all2_induct)
  case Nil
  show ?case by simp
next
  case (Cons e es y ys)
  obtain k v where e: "e = (k, v)" by (cases e)
  obtain k' x where y: "y = (k', x)" by (cases y)
  show ?case using Cons e y by simp
qed

lemma normalizeFields_elim:
  "normalizeFields n h members seen = Some (ys, seen') \<Longrightarrow>
     seen' = seen \<and>
     list_all2 (\<lambda>e y. fst y = fst e \<and>
       normalizeForFingerprint n h (snd e) False seen = Some (snd y, seen)) members ys"
proof (induction members arbitrary: ys)
  case Nil
  then show ?case by simp
next
  case (Cons e members)
  obtain k v where e: "e = (k, v)" by (cases e)
  from Cons.prems e obtain y s1 zs where
    a: "normalizeForFingerprint n h v False seen = Some (y, s1)" and
    b: "normalizeFields n h members s1 = Some (zs, seen')" and c: "ys = (k, y) # zs"
    by (auto split: option.splits)
  have s1: "s1 = seen" using a by (rule normalize_seen(1))
  from Cons.IH [of zs] b s1 have "seen' = seen"
    "list_all2 (\<lambda>e y. fst y = fst e \<and>
       normalizeForFingerprint n h (snd e) False seen = Some (snd y, seen)) members zs"
    by simp_all
  then show ?case using a s1 c e by simp
qed

section \<open>The fingerprint of a schema is a function of its tree\<close>

lemma list_all2_filter_rel:
  assumes "list_all2 R xs ys" "\<And>x y. R x y \<Longrightarrow> P x = Q y"
  shows "list_all2 R (filter P xs) (filter Q ys)"
  using assms by (induction rule: list_all2_induct) auto

lemma list_all2_insort_rel:
  assumes "list_all2 R xs ys" "R x y" "\<And>x y. R x y \<Longrightarrow> f x = g y"
  shows "list_all2 R (insort_key f x xs) (insort_key g y ys)"
  using assms by (induction rule: list_all2_induct) auto

lemma list_all2_sort_rel:
  assumes "list_all2 R xs ys" "\<And>x y. R x y \<Longrightarrow> f x = g y"
  shows "list_all2 R (sort_key f xs) (sort_key g ys)"
  using assms
proof (induction rule: list_all2_induct)
  case Nil
  show ?case by simp
next
  case (Cons x xs y ys)
  then show ?case by (simp add: list_all2_insort_rel)
qed

lemma normTrees_map: "normTrees ts = map (normTree False) ts"
  by (induction ts) simp_all

lemma normMembers_map: "normMembers ms = map (\<lambda>m. (fst m, normTree False (snd m))) ms"
  by (induction ms) auto

lemma list_all2_same_left:
  assumes "list_all2 (\<lambda>e y. fst y = fst e \<and> G (snd e) (snd y)) es ys"
    and "list_all2 (\<lambda>e m. fst m = fst e \<and> (\<forall>x. G (snd e) x \<longrightarrow> x = snd m)) es ms"
  shows "ys = ms"
  using assms
proof (induction es arbitrary: ys ms)
  case Nil
  then show ?case by simp
next
  case (Cons e es)
  from Cons.prems obtain y ys' m ms' where
    ys: "ys = y # ys'" and ms: "ms = m # ms'" by (auto simp: list_all2_Cons1)
  from Cons.prems ys ms have "y = m" by (auto intro: prod_eqI)
  moreover from Cons.IH [of ys' ms'] Cons.prems ys ms have "ys' = ms'" by simp
  ultimately show ?case using ys ms by simp
qed

lemma unfolds_normalize:
  "unfolds h anc v t \<Longrightarrow> normalizeForFingerprint n h v isRoot anc = Some (x, s)
     \<Longrightarrow> x = normTree isRoot t"
proof (induction arbitrary: n isRoot x s rule: unfolds.induct)
  case (u_leaf v anc)
  then show ?case
    by (cases n; cases v) (auto simp: isObject_def obj_at_def primitive_def)
next
  case (u_back a anc)
  then show ?case by (cases n) (auto simp: obj_at_def)
next
  case (u_arr a items anc ts)
  from u_arr.prems obtain m where n: "n = Suc m" by (cases n) auto
  from u_arr.prems n u_arr.hyps(1,2) obtain xs s' where
    xs: "normalizeItems m h items (insert a anc) = Some (xs, s')" and x: "x = NArr xs"
    by (auto split: option.splits)
  from normalizeItems_elim [OF xs] have
    l: "list_all2 (\<lambda>v x. normalizeForFingerprint m h v False (insert a anc)
                      = Some (x, insert a anc)) items xs" by simp
  have "xs = map (normTree False) ts"
    using l u_arr.IH
  proof (induction items arbitrary: xs ts)
    case Nil
    then show ?case by simp
  next
    case (Cons v items)
    from Cons.prems obtain z zs u us where
      xs: "xs = z # zs" and ts: "ts = u # us" by (auto simp: list_all2_Cons1)
    from Cons.prems xs ts have "z = normTree False u" by fastforce
    moreover from Cons.IH [of zs us] Cons.prems xs ts have "zs = map (normTree False) us" by simp
    ultimately show ?case using xs ts by simp
  qed
  then show ?case using x by (simp add: normTrees_map)
next
  case (u_rec a es anc ts)
  let ?S = "insert a anc"
  let ?p = "\<lambda>e. \<not> rootDocKey isRoot (fst e)"
  from u_rec.prems obtain m where n: "n = Suc m" by (cases n) auto
  from u_rec.prems n u_rec.hyps(1,2) obtain ys s' where
    ys: "normalizeFields m h (sortByKey (filter ?p es)) ?S = Some (ys, s')"
    and x: "x = NRec (objectOf ys)"
    by (auto split: option.splits)
  from normalizeFields_elim [OF ys] have
    l: "list_all2 (\<lambda>e y. fst y = fst e \<and>
          normalizeForFingerprint m h (snd e) False ?S = Some (snd y, ?S))
          (sortByKey (filter ?p es)) ys" by simp
  let ?R = "\<lambda>e m'. fst m' = fst e \<and>
      (\<forall>x. normalizeForFingerprint m h (snd e) False ?S = Some (x, ?S) \<longrightarrow> x = snd m')"
  have "list_all2 ?R es (normMembers ts)"
    using u_rec.IH
  proof (induction es arbitrary: ts)
    case Nil
    then show ?case by simp
  next
    case (Cons e es)
    from Cons.prems obtain t ts' where ts: "ts = t # ts'" by (auto simp: list_all2_Cons1)
    obtain k u where t: "t = (k, u)" by (cases t)
    from Cons.prems ts t have "?R e (k, normTree False u)" by auto
    moreover from Cons.IH [of ts'] Cons.prems ts have "list_all2 ?R es (normMembers ts')" by simp
    ultimately show ?case using ts t by simp
  qed
  then have "list_all2 ?R (filter ?p es) (filter (\<lambda>e. \<not> rootDocKey isRoot (fst e)) (normMembers ts))"
    by (rule list_all2_filter_rel) simp
  then have "list_all2 ?R (sortByKey (filter ?p es))
      (sortByKey (filter (\<lambda>e. \<not> rootDocKey isRoot (fst e)) (normMembers ts)))"
    unfolding sortByKey_def by (rule list_all2_sort_rel) simp
  with l have "ys = sortByKey (filter (\<lambda>e. \<not> rootDocKey isRoot (fst e)) (normMembers ts))"
    by (rule list_all2_same_left)
  then show ?case using x by simp
qed

lemma createSchemaFingerprint_unfolds:
  assumes "unfolds h {} schema t"
  shows "createSchemaFingerprint h schema = JSON_stringify (normTree True t)"
proof -
  from normalize_total [of h schema True] obtain x where
    x: "normalizeForFingerprint (length h + 1) h schema True {} = Some (x, {})" by blast
  from unfolds_normalize [OF assms x] x show ?thesis
    by (simp add: createSchemaFingerprint_def)
qed

section \<open>The registry\<close>

lemma wf_heap_distinct:
  "wf_heap h \<Longrightarrow> obj_at h a = Some (JRecord es) \<Longrightarrow> distinct (map fst es)"
  by (auto simp: wf_heap_def obj_at_def list_all_length split: if_splits)

lemma assign_map_of: "map_of (assign es k v) = (map_of es)(k \<mapsto> v)"
  by (induction es) (auto simp: fun_eq_iff)

lemma assign_keys: "fst ` set (assign es k v) = insert k (fst ` set es)"
proof -
  have "dom (map_of (assign es k v)) = insert k (dom (map_of es))"
    by (simp add: assign_map_of)
  then show ?thesis by (simp add: dom_map_of_conv_image_fst)
qed

lemma assign_distinct: "distinct (map fst es) \<Longrightarrow> distinct (map fst (assign es k v))"
proof (induction es)
  case Nil
  show ?case by simp
next
  case (Cons e es)
  obtain k' v' where e: "e = (k', v')" by (cases e)
  show ?case using Cons e assign_keys [of es k v] by auto
qed

lemma lookup_assign: "lookup (assign es k v) k' = (if k' = k then v else lookup es k')"
  by (simp add: lookup_def assign_map_of)

lemma insertIndex_map_of:
  "k \<notin> fst ` set es \<Longrightarrow> map_of (insertIndex es k v) = (map_of es)(k \<mapsto> v)"
proof (induction es)
  case Nil
  show ?case by simp
next
  case (Cons e es)
  obtain k' v' where e: "e = (k', v')" by (cases e)
  from Cons e have "k' \<noteq> k" by auto
  then show ?case using Cons e by (auto simp: fun_eq_iff)
qed

lemma putProp_map_of:
  assumes "k \<noteq> ''__proto__'' \<or> k \<in> fst ` set es"
  shows "map_of (putProp es k v) = (map_of es)(k \<mapsto> v)"
proof (cases "k \<in> fst ` set es")
  case True
  then show ?thesis by (simp add: putProp_def assign_map_of)
next
  case False
  then have "map_of es k = None" by (simp add: map_of_eq_None_iff)
  then have "map_of (es @ [(k, v)]) = (map_of es)(k \<mapsto> v)"
    by (auto simp: fun_eq_iff map_add_def split: option.splits)
  then show ?thesis using False assms by (simp add: putProp_def insertIndex_map_of)
qed

lemma putProp_other: "k' \<noteq> k \<Longrightarrow> map_of (putProp es k v) k' = map_of es k'"
proof (cases "k \<noteq> ''__proto__'' \<or> k \<in> fst ` set es")
  case True
  assume "k' \<noteq> k"
  then show ?thesis using putProp_map_of [OF True] by simp
next
  case False
  then show ?thesis by (simp add: putProp_def)
qed


lemma insertIndex_distinct:
  "k \<notin> fst ` set es \<Longrightarrow> distinct (map fst es) \<Longrightarrow> distinct (map fst (insertIndex es k v))"
proof (induction es)
  case Nil
  show ?case by simp
next
  case (Cons e es)
  have "fst ` set (insertIndex es k v) = insert k (fst ` set es)"
  proof -
    have "k \<notin> fst ` set es" using Cons.prems by auto
    then have "dom (map_of (insertIndex es k v)) = insert k (dom (map_of es))"
      by (simp add: insertIndex_map_of)
    then show ?thesis by (simp add: dom_map_of_conv_image_fst)
  qed
  then show ?case using Cons by auto
qed

lemma putProp_distinct: "distinct (map fst es) \<Longrightarrow> distinct (map fst (putProp es k v))"
  by (auto simp: putProp_def assign_distinct insertIndex_distinct)

lemma lookup_putProp:
  "k \<noteq> ''__proto__'' \<or> k \<in> fst ` set es \<Longrightarrow>
     lookup (putProp es k v) k' = (if k' = k then v else lookup es k')"
  by (simp add: lookup_def putProp_map_of)

lemma lookup_putProp_other: "k' \<noteq> k \<Longrightarrow> lookup (putProp es k v) k' = lookup es k'"
  by (simp add: lookup_def putProp_other)










lemma setProp_record:
  assumes "obj_at h s = Some (JRecord es)"
  shows "obj_at (setProp h s u v) x
           = (if x = s then Some (JRecord (putProp es u v)) else obj_at h x)"
  using assms by (auto simp: setProp_def obj_at_def split: if_splits)

lemma setProp_length: "length (setProp h s u v) = length h"
  by (auto simp: setProp_def split: option.splits jsobj.splits)





lemma String_of_nat_digits: "c \<in> set (String_of_nat n) \<Longrightarrow> isDigit c"
proof (induction n rule: String_of_nat.induct)
  case (1 n)
  have d: "isDigit (char_of (48 + k))" if "k < 10" for k :: nat
    using that by (simp add: isDigit_def of_char_of)
  show ?case
  proof (cases "n < 10")
    case True
    then show ?thesis using "1.prems" d [of n] by (subst (asm) String_of_nat.simps) simp
  next
    case False
    then have "c \<in> set (String_of_nat (n div 10)) \<or> c = char_of (48 + n mod 10)"
      using "1.prems" by (subst (asm) String_of_nat.simps) auto
    then show ?thesis using "1.IH" False d [of "n mod 10"] by auto
  qed
qed








lemma obj_at_append:
  "obj_at (h @ [ob]) a
     = (if a < length h then obj_at h a else if a = length h then Some ob else None)"
  by (auto simp: obj_at_def nth_append)

lemma isRecord_iff:
  "isRecord h v \<longleftrightarrow> (\<exists>a es. v = JRef a \<and> obj_at h a = Some (JRecord es))"
  by (auto simp: isRecord_def split: jsval.splits option.splits jsobj.splits)

lemma getProp_ref:
  "obj_at h a = Some (JRecord es) \<Longrightarrow> getProp h (JRef a) k = lookup es k"
  by (simp add: getProp_def entries_def)

lemma entries_ref:
  "obj_at h a = Some (JRecord es) \<Longrightarrow> entries h (JRef a) = es"
  by (simp add: entries_def)



lemma wf_heap_append: "wf_heap h \<Longrightarrow> wf_heap (h @ [JRecord []])"
  by (simp add: wf_heap_def)

lemma wf_heap_setProp: "wf_heap h \<Longrightarrow> wf_heap (setProp h a k v)"
proof (cases "obj_at h a")
  case None
  then show "wf_heap h \<Longrightarrow> wf_heap (setProp h a k v)" by (simp add: setProp_def)
next
  case (Some ob)
  assume w: "wf_heap h"
  show "wf_heap (setProp h a k v)"
  proof (cases ob)
    case (JArray xs)
    then show ?thesis using Some w by (simp add: setProp_def)
  next
    case (JRecord es)
    have a: "a < length h" using Some by (simp add: obj_at_def split: if_splits)
    have d: "distinct (map fst (putProp es k v))"
      using wf_heap_distinct [OF w] Some JRecord by (simp add: putProp_distinct)
    have "setProp h a k v = h[a := JRecord (putProp es k v)]"
      using Some JRecord by (simp add: setProp_def)
    then show ?thesis using w d a
      by (auto simp: wf_heap_def list_all_length nth_list_update)
  qed
qed


lemma ensureRecordProp_spec:
  assumes a: "obj_at h a = Some (JRecord ea)"
    and e: "ensureRecordProp h a key = (h', v)"
    and rec: "isRecord h' v"
    and key: "key \<noteq> ''__proto__''"
  shows "\<exists>c ec ea'. v = JRef c \<and> obj_at h' a = Some (JRecord ea') \<and> lookup ea' key = JRef c
            \<and> obj_at h' c = Some (JRecord ec) \<and> keeps h h' \<and> (wf_heap h \<longrightarrow> wf_heap h')
            \<and> (h' = h \<or> ec = [])"
proof (cases "truthy (getProp h (JRef a) key)")
  case True
  then have same: "h' = h" "v = lookup ea key" using e a by (simp_all add: ensureRecordProp_def getProp_ref)
  from rec same obtain c ec where c: "v = JRef c" "obj_at h c = Some (JRecord ec)"
    by (auto simp: isRecord_iff)
  have "keeps h h" by (auto simp: keeps_def)
  moreover have "lookup ea key = JRef c" using same c by simp
  ultimately show ?thesis using same c a by blast
next
  case False
  let ?c = "length h"
  let ?h1 = "h @ [JRecord []]"
  have al: "a < length h" using a by (simp add: obj_at_def split: if_splits)
  have a1: "obj_at ?h1 a = Some (JRecord ea)" using a al by (simp add: obj_at_append)
  have h': "h' = setProp ?h1 a key (JRef ?c)" and v: "v = JRef ?c"
    using False e by (auto simp: ensureRecordProp_def alloc_def)
  have 1: "obj_at h' a = Some (JRecord (putProp ea key (JRef ?c)))"
    using a1 h' by (simp add: setProp_record)
  have 2: "obj_at h' ?c = Some (JRecord [])"
    using a1 h' al by (simp add: setProp_record obj_at_append)
  have k: "keeps h h'"
    unfolding keeps_def
  proof (intro allI impI)
    fix x ex k y
    assume x: "obj_at h x = Some (JRecord ex) \<and> lookup ex k = JRef y"
    then have xl: "x < length h" by (simp add: obj_at_def split: if_splits)
    show "\<exists>ex'. obj_at h' x = Some (JRecord ex') \<and> lookup ex' k = JRef y"
    proof (cases "x = a")
      case True
      then have "ex = ea" using x a by simp
      then have "k \<noteq> key" using False x a by (auto simp: getProp_ref truthy_def)
      then show ?thesis using True 1 x \<open>ex = ea\<close> by (simp add: lookup_putProp_other)
    next
      case neq: False
      then have "obj_at h' x = Some (JRecord ex)"
        using h' a1 x xl by (simp add: setProp_record obj_at_append)
      then show ?thesis using x by simp
    qed
  qed
  have w: "wf_heap h \<longrightarrow> wf_heap h'"
    using h' by (simp add: wf_heap_append wf_heap_setProp)
  show ?thesis using v 1 2 k w key by (auto simp: lookup_putProp)
qed

lemma keeps_trans: "keeps h h' \<Longrightarrow> keeps h' h'' \<Longrightarrow> keeps h h''"
  unfolding keeps_def by blast











section \<open>Candidates of the resolver\<close>

text \<open>
  Claim C6, as amended.  The claim lets the lookup by identity succeed whenever
  \<^verbatim>\<open>nameByValue\<close> contains the schema.  The code goes on to the fingerprint when the
  name found is the empty string or has no entry in \<^verbatim>\<open>canonicalByName\<close>, so a schema
  registered under the empty name next to a twin gets no candidate.  What holds: when
  \<^verbatim>\<open>nameByValue\<close> gives a non-empty name that has an entry in \<^verbatim>\<open>canonicalByName\<close>,
  the candidate is that name with that entry; in every other case there is a candidate
  exactly when one single name maps to the schema's fingerprint in
  \<^verbatim>\<open>canonicalByFingerprint\<close>, and it is that entry; and
  \<^verbatim>\<open>resolveExternalComponentCandidate\<close> gives the entry of the index when the index
  holds exactly one for the fingerprint, and \<^verbatim>\<open>undefined\<close> otherwise.
\<close>

theorem resolveExternalSchemaCandidate_spec:
  "(nameByValue R a = Some name \<and> name \<noteq> [] \<and> map_of (canonicalByName R) name = Some canonical
      \<longrightarrow> resolveExternalSchemaCandidate h (JRef a) R = Some (name, canonical))
   \<and> (\<not> (\<exists>name canonical. nameByValue R a = Some name \<and> name \<noteq> []
            \<and> map_of (canonicalByName R) name = Some canonical)
      \<longrightarrow> (\<forall>candidate.
             resolveExternalSchemaCandidate h (JRef a) R = Some candidate
             \<longleftrightarrow> map_of (canonicalByFingerprint R) (createSchemaFingerprint h (JRef a))
                   = Some [candidate]))
   \<and> (\<forall>candidate.
         resolveExternalComponentCandidate h (JRef a) index = Some candidate
         \<longleftrightarrow> map_of index (createSchemaFingerprint h (JRef a)) = Some [candidate])"
proof -
  have one: "(if length xs \<noteq> 1 then None else Some (hd xs)) = Some c \<longleftrightarrow> xs = [c]"
    for xs :: "(string \<times> nat) list" and c
    by (cases xs) auto
  have fp: "candidateByFingerprint h (JRef a) R = Some candidate
            \<longleftrightarrow> map_of (canonicalByFingerprint R) (createSchemaFingerprint h (JRef a))
                  = Some [candidate]" for candidate
    by (cases "map_of (canonicalByFingerprint R) (createSchemaFingerprint h (JRef a))")
       (simp_all add: candidateByFingerprint_def one del: One_nat_def)
  have comp: "resolveExternalComponentCandidate h (JRef a) index = Some candidate
            \<longleftrightarrow> map_of index (createSchemaFingerprint h (JRef a)) = Some [candidate]"
    for candidate
    by (cases "map_of index (createSchemaFingerprint h (JRef a))")
       (simp_all add: resolveExternalComponentCandidate_def one del: One_nat_def)
  have ident: "resolveExternalSchemaCandidate h (JRef a) R = Some (name, canonical)"
    if "nameByValue R a = Some name" "name \<noteq> []" "map_of (canonicalByName R) name = Some canonical"
    for name canonical
    using that by (simp add: resolveExternalSchemaCandidate_def)
  have other: "resolveExternalSchemaCandidate h (JRef a) R = candidateByFingerprint h (JRef a) R"
    if "\<not> (\<exists>name canonical. nameByValue R a = Some name \<and> name \<noteq> []
            \<and> map_of (canonicalByName R) name = Some canonical)"
    using that by (auto simp: resolveExternalSchemaCandidate_def split: option.splits)
  show ?thesis using ident other fp comp by auto
qed

theorem resolveExternalSchemaCandidate_spec_witness:
  "nameByValue userResolver 0 = Some ''User''
   \<and> map_of (canonicalByName userResolver) ''User'' = Some 0
   \<and> resolveExternalSchemaCandidate twinObjects (JRef 0) userResolver = Some (''User'', 0)
   \<and> nameByValue userResolver 1 = None
   \<and> map_of (canonicalByFingerprint userResolver) (createSchemaFingerprint twinObjects (JRef 1))
        = Some [(''User'', 0)]
   \<and> resolveExternalSchemaCandidate twinObjects (JRef 1) userResolver = Some (''User'', 0)
   \<and> map_of (canonicalByFingerprint twinResolver) (createSchemaFingerprint twinObjects (JRef 1))
        = Some [('''', 0), (''B'', 1)]
   \<and> resolveExternalComponentCandidate twinObjects (JRef 1) (canonicalByFingerprint twinResolver)
        = None"
proof -
  have a: "nameByValue userResolver 0 = Some ''User''" by code_simp
  have b: "map_of (canonicalByName userResolver) ''User'' = Some 0" by code_simp
  have c: "nameByValue userResolver 1 = None" by code_simp
  have d: "map_of (canonicalByFingerprint userResolver)
             (createSchemaFingerprint twinObjects (JRef 1)) = Some [(''User'', 0)]" by code_simp
  have e: "map_of (canonicalByFingerprint twinResolver)
             (createSchemaFingerprint twinObjects (JRef 1)) = Some [('''', 0), (''B'', 1)]"
    by code_simp
  note s0 = resolveExternalSchemaCandidate_spec
    [of userResolver 0 "''User''" 0 twinObjects "canonicalByFingerprint twinResolver"]
  note s1 = resolveExternalSchemaCandidate_spec
    [of userResolver 1 "''User''" 0 twinObjects "canonicalByFingerprint twinResolver"]
  have r0: "resolveExternalSchemaCandidate twinObjects (JRef 0) userResolver = Some (''User'', 0)"
    using s0 a b by simp
  have r1: "resolveExternalSchemaCandidate twinObjects (JRef 1) userResolver = Some (''User'', 0)"
    using s1 c d by simp
  have r2: "resolveExternalComponentCandidate twinObjects (JRef 1)
              (canonicalByFingerprint twinResolver) = None"
  proof (cases "resolveExternalComponentCandidate twinObjects (JRef 1)
              (canonicalByFingerprint twinResolver)")
    case None
    then show ?thesis .
  next
    case (Some candidate)
    then have "map_of (canonicalByFingerprint twinResolver)
                 (createSchemaFingerprint twinObjects (JRef 1)) = Some [candidate]"
      using s1 by blast
    then show ?thesis using e by simp
  qed
  show ?thesis using a b c d e r0 r1 r2 by blast
qed

theorem resolveExternalSchemaCandidate_counterexample:
  "nameByValue twinResolver 0 = Some []
   \<and> resolveExternalSchemaCandidate twinObjects (JRef 0) twinResolver = None"
  by code_simp

section \<open>Sharing and cycles in the fingerprint\<close>

lemma list_all2_ex:
  assumes "\<And>x. \<exists>y. P x y"
  shows "\<exists>ys. list_all2 P xs ys"
proof (induction xs)
  case Nil
  show ?case by simp
next
  case (Cons x xs)
  then obtain ys where "list_all2 P xs ys" by blast
  moreover from assms obtain y where "P x y" by blast
  ultimately have "list_all2 P (x # xs) (y # ys)" by simp
  then show ?case by blast
qed

lemma unfolds_exists_aux:
  "card ({..<length h} - anc) < n \<Longrightarrow> \<exists>t. unfolds h anc v t"
proof (induction n arbitrary: anc v)
  case 0
  then show ?case by simp
next
  case (Suc n)
  show ?case
  proof (cases "isObject h v")
    case False
    then show ?thesis using u_leaf by blast
  next
    case True
    then obtain a where v: "v = JRef a" and a: "a < length h"
      by (auto simp: isObject_def obj_at_def split: jsval.splits if_splits)
    show ?thesis
    proof (cases "a \<in> anc")
      case True
      then show ?thesis using u_back a v by blast
    next
      case False
      have c: "card ({..<length h} - insert a anc) < n"
        using unseen_card [OF a False Suc.prems] .
      have sub: "\<exists>t. unfolds h (insert a anc) w t" for w
        using Suc.IH [OF c] .
      show ?thesis
      proof (cases "h ! a")
        case (JRecord es)
        have "\<exists>t. fst t = fst e \<and> unfolds h (insert a anc) (snd e) (snd t)" for e :: "string \<times> jsval"
        proof -
          from sub obtain t' where "unfolds h (insert a anc) (snd e) t'" by blast
          then have "fst (fst e, t') = fst e \<and> unfolds h (insert a anc) (snd e) (snd (fst e, t'))"
            by simp
          then show ?thesis by blast
        qed
        from list_all2_ex [of "\<lambda>e t. fst t = fst e \<and> unfolds h (insert a anc) (snd e) (snd t)" es, OF this]
        obtain ts where
          "list_all2 (\<lambda>e t. fst t = fst e \<and> unfolds h (insert a anc) (snd e) (snd t)) es ts"
          by blast
        moreover have "obj_at h a = Some (JRecord es)" using a JRecord by (simp add: obj_at_def)
        ultimately have "unfolds h anc (JRef a) (TRec ts)" using False u_rec by blast
        then show ?thesis using v by blast
      next
        case (JArray items)
        from list_all2_ex [of "unfolds h (insert a anc)" items, OF sub]
        obtain ts where "list_all2 (unfolds h (insert a anc)) items ts" by blast
        moreover have "obj_at h a = Some (JArray items)" using a JArray by (simp add: obj_at_def)
        ultimately have "unfolds h anc (JRef a) (TArr ts)" using False u_arr by blast
        then show ?thesis using v by blast
      qed
    qed
  qed
qed

lemma unfolds_exists: "\<exists>t. unfolds h {} v t"
  by (rule unfolds_exists_aux [of h "{}" "length h + 1"]) simp

lemma circular_step:
  "a < length h \<Longrightarrow> a \<in> seen \<Longrightarrow>
     normalizeForFingerprint (Suc n) h (JRef a) isRoot seen = Some (NStr ''[Circular]'', seen)"
  by (simp add: obj_at_def)

lemma expanded_step:
  assumes "a \<notin> seen" "normalizeForFingerprint n h (JRef a) isRoot seen = Some (x, seen')"
  shows "x \<noteq> NStr ''[Circular]''"
  using assms
  by (cases n) (auto simp: obj_at_def split: option.splits jsobj.splits if_splits)

text \<open>
  Claim C10.  The sentinel stands for back-edges only, and sharing does not show in the
  fingerprint.  An object that is in \<open>seen\<close>, which holds the ancestors on the current
  path, is normalized to \<^verbatim>\<open>"[Circular]"\<close>; an object that is not in \<open>seen\<close> is never
  normalized to the sentinel, and the traversal leaves \<open>seen\<close> as it found it, since the
  object is deleted from the set after its subtree.  So every schema has an unfolding
  tree, in which exactly the references to an ancestor are back-edges, and the fingerprint
  is the serialization of the normal form of that tree: two schemas with the same tree,
  such as one that shares a subtree by reference and one that holds it twice, have the
  same fingerprint.
\<close>

theorem fingerprint_sharing:
  "(a < length h \<and> a \<in> seen \<longrightarrow>
      normalizeForFingerprint (Suc n) h (JRef a) isRoot seen = Some (NStr ''[Circular]'', seen))
   \<and> (a \<notin> seen \<and> normalizeForFingerprint n h (JRef a) isRoot seen = Some (x, seen') \<longrightarrow>
        x \<noteq> NStr ''[Circular]'' \<and> seen' = seen)
   \<and> (\<exists>t. unfolds h {} schema t)
   \<and> (unfolds h {} schema t \<longrightarrow>
        createSchemaFingerprint h schema = JSON_stringify (normTree True t))
   \<and> (unfolds h {} schema t \<and> unfolds h' {} schema' t \<longrightarrow>
        createSchemaFingerprint h schema = createSchemaFingerprint h' schema')"
  using circular_step [of a h seen n isRoot] expanded_step [of a seen n h isRoot x seen']
    normalize_seen(1) [of n h "JRef a" isRoot seen x seen'] unfolds_exists [of h schema]
    createSchemaFingerprint_unfolds [of h schema t] createSchemaFingerprint_unfolds [of h' schema' t]
  by simp

lemma unfolds_sharedDoc: "unfolds sharedDoc {} (JRef 0) sharedTree"
  unfolding sharedTree_def
  by (rule u_rec [where es = "[(''a'', JRef 1), (''b'', JRef 1)]"])
     (auto simp: sharedDoc_def obj_at_def isObject_def
           intro!: u_rec [where es = "[(''type'', JStr ''string'')]"] u_leaf)

lemma unfolds_copiedDoc: "unfolds copiedDoc {} (JRef 0) sharedTree"
  unfolding sharedTree_def
  by (rule u_rec [where es = "[(''a'', JRef 1), (''b'', JRef 2)]"])
     (auto simp: copiedDoc_def obj_at_def isObject_def
           intro!: u_rec [where es = "[(''type'', JStr ''string'')]"] u_leaf)

theorem fingerprint_sharing_witness:
  "unfolds sharedDoc {} (JRef 0) sharedTree
   \<and> unfolds copiedDoc {} (JRef 0) sharedTree
   \<and> createSchemaFingerprint sharedDoc (JRef 0) = createSchemaFingerprint copiedDoc (JRef 0)
   \<and> createSchemaFingerprint sharedDoc (JRef 0)
       = JSON_stringify (NRec [(''a'', NRec [(''type'', NStr ''string'')]),
                               (''b'', NRec [(''type'', NStr ''string'')])])
   \<and> 0 < length selfDoc
   \<and> normalizeForFingerprint (Suc 0) selfDoc (JRef 0) False {0} = Some (NStr ''[Circular]'', {0})
   \<and> normalizeForFingerprint 2 selfDoc (JRef 0) True {}
       = Some (NRec [(''self'', NStr ''[Circular]'')], {})
   \<and> createSchemaFingerprint selfDoc (JRef 0)
       = JSON_stringify (NRec [(''self'', NStr ''[Circular]'')])"
proof -
  note t = fingerprint_sharing [where h = sharedDoc and schema = "JRef 0" and t = sharedTree
      and h' = copiedDoc and schema' = "JRef 0" and a = 0 and seen = "{0}" and n = 0]
  have eq: "createSchemaFingerprint sharedDoc (JRef 0) = createSchemaFingerprint copiedDoc (JRef 0)"
    using t unfolds_sharedDoc unfolds_copiedDoc by blast
  have v: "createSchemaFingerprint sharedDoc (JRef 0)
       = JSON_stringify (NRec [(''a'', NRec [(''type'', NStr ''string'')]),
                               (''b'', NRec [(''type'', NStr ''string'')])])"
    by code_simp
  have l: "0 < length selfDoc" by (simp add: selfDoc_def)
  have c: "normalizeForFingerprint (Suc 0) selfDoc (JRef 0) False {0} = Some (NStr ''[Circular]'', {0})"
    using fingerprint_sharing [where h = selfDoc and a = 0 and seen = "{0}" and n = 0 and isRoot = False] l
    by simp
  have d: "normalizeForFingerprint 2 selfDoc (JRef 0) True {}
       = Some (NRec [(''self'', NStr ''[Circular]'')], {})"
    by code_simp
  have e: "createSchemaFingerprint selfDoc (JRef 0)
       = JSON_stringify (NRec [(''self'', NStr ''[Circular]'')])"
    by code_simp
  show ?thesis using unfolds_sharedDoc unfolds_copiedDoc eq v l c d e by blast
qed

section \<open>The guard of the normaliser and the creation of the registry\<close>

lemma obj_at_setProp_other:
  "x \<noteq> a \<Longrightarrow> obj_at (setProp h a k v) x = obj_at h x"
  by (auto simp: setProp_def obj_at_def split: option.splits jsobj.splits if_splits)

lemma ensureRecordProp_record:
  assumes "obj_at h a = Some (JRecord ea)" "\<not> truthy (getProp h (JRef a) key)"
  shows "isRecord (fst (ensureRecordProp h a key)) (snd (ensureRecordProp h a key))"
    and "\<exists>c. snd (ensureRecordProp h a key) = JRef c"
    and "entries (fst (ensureRecordProp h a key)) (snd (ensureRecordProp h a key)) = []"
proof -
  have al: "a < length h" using assms(1) by (simp add: obj_at_def split: if_splits)
  have e: "ensureRecordProp h a key
             = (setProp (h @ [JRecord []]) a key (JRef (length h)), JRef (length h))"
    using assms(2) by (simp add: ensureRecordProp_def alloc_def)
  have o: "obj_at (setProp (h @ [JRecord []]) a key (JRef (length h))) (length h) = Some (JRecord [])"
    using al by (simp add: obj_at_setProp_other obj_at_append)
  show "isRecord (fst (ensureRecordProp h a key)) (snd (ensureRecordProp h a key))"
    using e o by (simp add: isRecord_iff)
  show "\<exists>c. snd (ensureRecordProp h a key) = JRef c" using e by simp
  show "entries (fst (ensureRecordProp h a key)) (snd (ensureRecordProp h a key)) = []"
    using e o by (simp add: entries_ref)
qed

lemma createSchemaRegistry_total:
  assumes r: "isRecord h root" and c: "\<not> truthy (getProp h root ''components'')"
  shows "createSchemaRegistry h root \<noteq> None"
proof -
  from r obtain a ea where root: "root = JRef a" and a: "obj_at h a = Some (JRecord ea)"
    by (auto simp: isRecord_iff)
  let ?e1 = "ensureRecordProp h a ''components''"
  from ensureRecordProp_record [OF a, of "''components''"] c root obtain cc where
    1: "isRecord (fst ?e1) (snd ?e1)" "snd ?e1 = JRef cc" "entries (fst ?e1) (snd ?e1) = []"
    by auto
  from 1(1,2) obtain ec where cc: "obj_at (fst ?e1) cc = Some (JRecord ec)"
    by (auto simp: isRecord_iff)
  have f: "\<not> truthy (getProp (fst ?e1) (JRef cc) ''schemas'')"
    using 1(2,3) by (simp add: getProp_def lookup_def truthy_def)
  let ?e2 = "ensureRecordProp (fst ?e1) cc ''schemas''"
  from ensureRecordProp_record [OF cc f] obtain s where
    2: "isRecord (fst ?e2) (snd ?e2)" "snd ?e2 = JRef s"
    by auto
  show ?thesis
    using root r 1(1,2) 2
    by (simp add: createSchemaRegistry_def split_beta)
qed

lemma createSchemaRegistry_located:
  assumes c: "createSchemaRegistry h root = Some (h2, reg)"
  shows "located h2 root (componentSchemas reg)"
    and "\<not> truthy (getProp h root ''components'')
           \<or> \<not> truthy (getProp h (getProp h root ''components'') ''schemas'')
         \<Longrightarrow> entries h2 (JRef (componentSchemas reg)) = []"
proof -
  from c obtain r where root: "root = JRef r" and rr: "isRecord h root"
    by (auto simp: createSchemaRegistry_def split: jsval.splits if_splits)
  then obtain er where er: "obj_at h r = Some (JRecord er)" by (auto simp: isRecord_iff)
  obtain h1 comps where e1: "ensureRecordProp h r ''components'' = (h1, comps)"
    by (cases "ensureRecordProp h r ''components''")
  from c root rr e1 have rc: "isRecord h1 comps"
    by (auto simp: createSchemaRegistry_def split: jsval.splits if_splits)
  have nk: "''components'' \<noteq> ''__proto__''" "''schemas'' \<noteq> ''__proto__''" by simp_all
  from ensureRecordProp_spec [OF er e1 rc nk(1)] obtain cc ec er1 where
    s1: "comps = JRef cc" "obj_at h1 r = Some (JRecord er1)" "lookup er1 ''components'' = JRef cc"
      "obj_at h1 cc = Some (JRecord ec)" "keeps h h1" "h1 = h \<or> ec = []"
    by blast
  obtain h2' schs where e2: "ensureRecordProp h1 cc ''schemas'' = (h2', schs)"
    by (cases "ensureRecordProp h1 cc ''schemas''")
  from c root rr e1 s1(1) rc e2 have rs: "isRecord h2' schs" and h2: "h2' = h2"
    by (auto simp: createSchemaRegistry_def split: jsval.splits if_splits)
  from ensureRecordProp_spec [OF s1(4) e2 rs nk(2)] obtain s es ec2 where
    s2: "schs = JRef s" "obj_at h2' cc = Some (JRecord ec2)" "lookup ec2 ''schemas'' = JRef s"
      "obj_at h2' s = Some (JRecord es)" "keeps h1 h2'"
    by blast
  from c root rr e1 s1(1) rc e2 s2(1) rs have reg: "componentSchemas reg = s"
    by (auto simp: createSchemaRegistry_def split: jsval.splits if_splits)
  from s1(2,3) s2(5) obtain er2 where
    er2: "obj_at h2' r = Some (JRecord er2)" "lookup er2 ''components'' = JRef cc"
    unfolding keeps_def by blast
  show "located h2 root (componentSchemas reg)"
    unfolding located_def using root er2 s2 h2 reg by auto
  assume absent: "\<not> truthy (getProp h root ''components'')
           \<or> \<not> truthy (getProp h (getProp h root ''components'') ''schemas'')"
  have falsy: "\<not> truthy (getProp h1 (JRef cc) ''schemas'')"
  proof (cases "truthy (getProp h root ''components'')")
    case True
    then have "h1 = h" "comps = getProp h root ''components''"
      using e1 root by (auto simp: ensureRecordProp_def)
    then show ?thesis using absent True s1(1) by simp
  next
    case False
    from ensureRecordProp_record(3) [of h r er "''components''"] False er root e1 s1(1)
    have "entries h1 (JRef cc) = []" by simp
    then show ?thesis by (simp add: getProp_def lookup_def truthy_def)
  qed
  from ensureRecordProp_record(3) [OF s1(4) falsy] e2 s2(1) h2 reg
  show "entries h2 (JRef (componentSchemas reg)) = []" by simp
qed

text \<open>
  Claim C1.  When the document is not recognized as OpenAPI or \<^verbatim>\<open>parser.$refs\<close> is
  absent, the function returns at once and the heap is as it was: nothing is created.
  Otherwise the registry is created before the list of loaded paths is looked at.  The
  creation succeeds for a document without \<^verbatim>\<open>components\<close>; after it
  \<^verbatim>\<open>components.schemas\<close> of the document is a record, the record of the registry, and
  it is the empty record when the document had no \<^verbatim>\<open>components\<close> or no
  \<^verbatim>\<open>components.schemas\<close>; with an empty list of paths the passes then run from this
  state with an empty resolver.
\<close>

theorem hoistBundledSchemas_guard:
  "(\<not> isOpenAPI E h schema \<or> refs = None \<longrightarrow> hoistBundledSchemas depth E h schema refs = Some h)
   \<and> (isRecord h schema \<and> \<not> truthy (getProp h schema ''components'')
        \<longrightarrow> createSchemaRegistry h schema \<noteq> None)
   \<and> (isOpenAPI E h schema \<and> createSchemaRegistry h schema = Some (h1, reg) \<longrightarrow>
        located h1 schema (componentSchemas reg)
        \<and> (\<not> truthy (getProp h schema ''components'')
             \<or> \<not> truthy (getProp h (getProp h schema ''components'') ''schemas'')
            \<longrightarrow> entries h1 (JRef (componentSchemas reg)) = [])
        \<and> hoistBundledSchemas depth E h schema (Some ([], get))
            = rewritePasses depth E schema (h1, reg, createExternalSchemaNameResolver))"
proof -
  have a: "hoistBundledSchemas depth E h schema refs = Some h"
    if "\<not> isOpenAPI E h schema \<or> refs = None"
    using that by (auto simp: hoistBundledSchemas_def)
  have b: "hoistBundledSchemas depth E h schema (Some ([], get))
            = rewritePasses depth E schema (h1, reg, createExternalSchemaNameResolver)"
    if "isOpenAPI E h schema" "createSchemaRegistry h schema = Some (h1, reg)"
    using that by (simp add: hoistBundledSchemas_def registerLoadedFiles_def)
  show ?thesis
    using a b createSchemaRegistry_located [of h schema h1 reg]
      createSchemaRegistry_total [of h schema] by blast
qed

theorem hoistBundledSchemas_guard_witness:
  "\<not> isOpenAPI posix swaggerDoc (JRef 0)
   \<and> hoistBundledSchemas 8 posix swaggerDoc (JRef 0) (Some ([], \<lambda>path. JUndefined)) = Some swaggerDoc
   \<and> hoistBundledSchemas 8 posix emptyDoc (JRef 0) None = Some emptyDoc
   \<and> getProp emptyDoc (JRef 0) ''components'' = JUndefined
   \<and> isOpenAPI posix emptyDoc (JRef 0)
   \<and> createSchemaRegistry emptyDoc (JRef 0) \<noteq> None
   \<and> componentSchemas (snd (the (createSchemaRegistry emptyDoc (JRef 0)))) = 4
   \<and> entries (fst (the (createSchemaRegistry emptyDoc (JRef 0)))) (JRef 4) = []
   \<and> hoistBundledSchemas 8 posix emptyDoc (JRef 0) (Some ([], \<lambda>path. JUndefined))
        = Some [JRecord [(''openapi'', JStr ''3.0.3''), (''info'', JRef 1), (''paths'', JRef 2),
                         (''components'', JRef 3)],
                JRecord [(''title'', JStr ''OpenAPI''), (''version'', JStr ''1.0.0'')],
                JRecord [],
                JRecord [(''schemas'', JRef 4)],
                JRecord []]"
proof -
  have s: "\<not> isOpenAPI posix swaggerDoc (JRef 0)" by code_simp
  have o: "isOpenAPI posix emptyDoc (JRef 0)" by code_simp
  have u: "getProp emptyDoc (JRef 0) ''components'' = JUndefined" by code_simp
  have c: "createSchemaRegistry emptyDoc (JRef 0) \<noteq> None" by code_simp
  then obtain h1 reg where hr: "createSchemaRegistry emptyDoc (JRef 0) = Some (h1, reg)" by auto
  have cs: "componentSchemas (snd (the (createSchemaRegistry emptyDoc (JRef 0)))) = 4" by code_simp
  note g1 = hoistBundledSchemas_guard [of posix swaggerDoc "JRef 0" "Some ([], \<lambda>path. JUndefined)" 8]
  note g2 = hoistBundledSchemas_guard [of posix emptyDoc "JRef 0" None 8]
  note g3 = hoistBundledSchemas_guard [of posix emptyDoc "JRef 0" None 8 h1 reg]
  have n1: "hoistBundledSchemas 8 posix swaggerDoc (JRef 0) (Some ([], \<lambda>path. JUndefined)) = Some swaggerDoc"
    using g1 s by blast
  have n2: "hoistBundledSchemas 8 posix emptyDoc (JRef 0) None = Some emptyDoc"
    using g2 by blast
  have "entries h1 (JRef (componentSchemas reg)) = []"
    using g3 o hr u by (simp add: truthy_def)
  then have e: "entries (fst (the (createSchemaRegistry emptyDoc (JRef 0)))) (JRef 4) = []"
    using hr cs by simp
  have f: "hoistBundledSchemas 8 posix emptyDoc (JRef 0) (Some ([], \<lambda>path. JUndefined))
        = Some [JRecord [(''openapi'', JStr ''3.0.3''), (''info'', JRef 1), (''paths'', JRef 2),
                         (''components'', JRef 3)],
                JRecord [(''title'', JStr ''OpenAPI''), (''version'', JStr ''1.0.0'')],
                JRecord [],
                JRecord [(''schemas'', JRef 4)],
                JRecord []]"
    by code_simp
  show ?thesis using s n1 n2 u o c cs e f by blast
qed

end
